theory Spec2Isabelle
  imports Main "HOL-Library.Word"
begin

unbundle bit_operations_syntax

section \<open>The shared model (class Model)\<close>

text \<open>
  The class is declared in \<^verbatim>\<open>src/src/Model.h\<close>; its member functions are the second
  part of \<^verbatim>\<open>src/src/TaskManager.cpp\<close> (from \<^verbatim>\<open>#include "Model.h"\<close> on).

  The two enumerations of Model.h, in the order of their declaration.
\<close>

datatype SystemState = STATE_MENU | STATE_SETTINGS | STATE_ABOUT | STATE_CONFIRM_EXIT

datatype SystemEvent =
    EVENT_UP | EVENT_DOWN | EVENT_LEFT | EVENT_RIGHT
  | EVENT_SELECT1 | EVENT_SELECT2 | EVENT_TIMEOUT | EVENT_NONE

text \<open>
  A reading of the real-time clock (the \<open>DateTime\<close> class of the clock library):
  the six fields that the code prints.
\<close>

record DateTime =
  year :: nat
  month :: nat
  day :: nat
  hour :: nat
  minute :: nat
  second :: nat

text \<open>
  The data members of class \<open>Model\<close> that carry application state. The C \<open>int\<close>
  \<open>m_menuIndex\<close> is an \<open>int\<close>: every arithmetic expression of the class on an index
  in \<open>[0, 4)\<close> stays between \<open>0\<close> and \<open>6\<close>, far from overflow. The three mutex
  handles are not fields of the record: every method that takes the state mutex
  receives the outcome of its \<open>xSemaphoreTake\<close> call as its first argument
  (\<open>True\<close>: acquired within the timeout, \<open>False\<close>: timed out).
\<close>

record Model =
  m_menuIndex :: int
  m_currentState :: SystemState
  m_stateChanged :: bool
  m_currentTime :: DateTime

definition m_menuItems :: "string list" where
  "m_menuItems = [''Home'', ''Settings'', ''About'', ''Exit'']"

definition m_menuLength :: int where
  "m_menuLength = int (length m_menuItems)"

text \<open>
  The constructor \<open>Model::Model()\<close>. It names no initial value for \<open>m_currentTime\<close>,
  which is default-constructed by the clock library; that value is the argument.
\<close>

definition Model_ctor :: "DateTime \<Rightarrow> Model" where
  "Model_ctor dt0 =
     \<lparr>m_menuIndex = 0, m_currentState = STATE_MENU, m_stateChanged = False,
      m_currentTime = dt0\<rparr>"

text \<open>
  The remainder operator \<open>%\<close> of C++ truncates towards zero: the result has the sign
  of the dividend.
\<close>

definition c_rem :: "int \<Rightarrow> int \<Rightarrow> int" where
  "c_rem a b = sgn a * (\<bar>a\<bar> mod \<bar>b\<bar>)"

definition getMenuIndex :: "bool \<Rightarrow> Model \<Rightarrow> int" where
  "getMenuIndex taken m = (if taken then m_menuIndex m else 0)"

definition setMenuIndex :: "bool \<Rightarrow> int \<Rightarrow> Model \<Rightarrow> Model" where
  "setMenuIndex taken index m =
     (if taken then
        (if index \<ge> 0 \<and> index < m_menuLength
         then m\<lparr>m_menuIndex := index, m_stateChanged := True\<rparr>
         else m)
      else m)"

definition incrementMenuIndex :: "bool \<Rightarrow> Model \<Rightarrow> Model" where
  "incrementMenuIndex taken m =
     (if taken then
        m\<lparr>m_menuIndex := c_rem (m_menuIndex m + 1) m_menuLength, m_stateChanged := True\<rparr>
      else m)"

definition decrementMenuIndex :: "bool \<Rightarrow> Model \<Rightarrow> Model" where
  "decrementMenuIndex taken m =
     (if taken then
        m\<lparr>m_menuIndex := c_rem (m_menuIndex m - 1 + m_menuLength) m_menuLength,
          m_stateChanged := True\<rparr>
      else m)"

definition getCurrentState :: "bool \<Rightarrow> Model \<Rightarrow> SystemState" where
  "getCurrentState taken m = (if taken then m_currentState m else STATE_MENU)"

definition setState :: "bool \<Rightarrow> SystemState \<Rightarrow> Model \<Rightarrow> Model" where
  "setState taken newState m =
     (if taken then
        (if m_currentState m \<noteq> newState
         then m\<lparr>m_currentState := newState, m_stateChanged := True\<rparr>
         else m)
      else m)"

definition hasStateChanged :: "bool \<Rightarrow> Model \<Rightarrow> bool" where
  "hasStateChanged taken m = (if taken then m_stateChanged m else False)"

definition clearStateChanged :: "bool \<Rightarrow> Model \<Rightarrow> Model" where
  "clearStateChanged taken m = (if taken then m\<lparr>m_stateChanged := False\<rparr> else m)"

definition setCurrentTime :: "DateTime \<Rightarrow> Model \<Rightarrow> Model" where
  "setCurrentTime dt m = m\<lparr>m_currentTime := dt\<rparr>"

text \<open>
  \<open>getMenuItem\<close> returns a \<open>const char*\<close>. The result is an option: \<open>Some s\<close> is a
  pointer to the string \<open>s\<close>, \<open>None\<close> is what a read of \<open>m_menuItems\<close> outside its
  four elements would give (no string of the program).
\<close>

definition read_menuItems :: "int \<Rightarrow> string option" where
  "read_menuItems index =
     (if 0 \<le> index \<and> index < int (length m_menuItems)
      then Some (m_menuItems ! nat index) else None)"

definition getMenuItem :: "int \<Rightarrow> string option" where
  "getMenuItem index =
     (if index \<ge> 0 \<and> index < m_menuLength then read_menuItems index
      else Some ''Invalid'')"

definition getCurrentMenuItem :: "bool \<Rightarrow> Model \<Rightarrow> string option" where
  "getCurrentMenuItem taken m = getMenuItem (getMenuIndex taken m)"

definition getMenuLength :: int where
  "getMenuLength = m_menuLength"

section \<open>The controller (class Controller)\<close>

text \<open>
  The class is declared in \<^verbatim>\<open>src/src/Controller.h\<close>; its member functions are the last
  part of \<^verbatim>\<open>src/src/SimpleLCD.h\<close> (from \<^verbatim>\<open>#include "Controller.h"\<close> on).

  \<open>ButtonConfig\<close> as declared in Controller.h. The levels \<open>HIGH\<close> and \<open>LOW\<close> of
  a digital line are the booleans that the code stores them in (\<open>bool currentState =
  digitalRead(...)\<close>). \<open>unsigned long\<close> is a 32-bit word on this platform, so the
  difference of two \<open>millis()\<close> readings wraps around.
\<close>

record ButtonConfig =
  pin :: int
  lastState :: bool
  lastDebounceTime :: "32 word"
  pressed :: bool

abbreviation (input) HIGH :: bool where "HIGH \<equiv> True"
abbreviation (input) LOW :: bool where "LOW \<equiv> False"

definition BTN_UP_PIN :: int where "BTN_UP_PIN = 32"
definition BTN_DOWN_PIN :: int where "BTN_DOWN_PIN = 33"
definition BTN_LEFT_PIN :: int where "BTN_LEFT_PIN = 25"
definition BTN_RIGHT_PIN :: int where "BTN_RIGHT_PIN = 26"
definition BTN_SELECT1_PIN :: int where "BTN_SELECT1_PIN = 27"
definition BTN_SELECT2_PIN :: int where "BTN_SELECT2_PIN = 14"

definition DEBOUNCE_DELAY :: "32 word" where "DEBOUNCE_DELAY = 50"

text \<open>The array \<open>m_buttons[6]\<close> after \<open>initializeButtons\<close>.\<close>

definition initializeButtons :: "ButtonConfig list" where
  "initializeButtons =
     [\<lparr>pin = BTN_UP_PIN, lastState = HIGH, lastDebounceTime = 0, pressed = False\<rparr>,
      \<lparr>pin = BTN_DOWN_PIN, lastState = HIGH, lastDebounceTime = 0, pressed = False\<rparr>,
      \<lparr>pin = BTN_LEFT_PIN, lastState = HIGH, lastDebounceTime = 0, pressed = False\<rparr>,
      \<lparr>pin = BTN_RIGHT_PIN, lastState = HIGH, lastDebounceTime = 0, pressed = False\<rparr>,
      \<lparr>pin = BTN_SELECT1_PIN, lastState = HIGH, lastDebounceTime = 0, pressed = False\<rparr>,
      \<lparr>pin = BTN_SELECT2_PIN, lastState = HIGH, lastDebounceTime = 0, pressed = False\<rparr>]"

text \<open>
  The \<open>switch (i)\<close> of \<open>readButtons\<close>: the event returned for button \<open>i\<close>. An index
  without a \<open>case\<close> leaves the switch without returning.
\<close>

definition switch_event :: "nat \<Rightarrow> SystemEvent option" where
  "switch_event i =
     (if i = 0 then Some EVENT_UP
      else if i = 1 then Some EVENT_DOWN
      else if i = 2 then Some EVENT_LEFT
      else if i = 3 then Some EVENT_RIGHT
      else if i = 4 then Some EVENT_SELECT1
      else if i = 5 then Some EVENT_SELECT2
      else None)"

text \<open>
  The body of the \<open>for\<close> loop of \<open>readButtons\<close> on one button: \<open>currentTime\<close> is the
  \<open>millis()\<close> reading of this call and \<open>currentState\<close> the level read from the
  button's pin. The first component of the result tells whether the branch that
  detects a press (the one holding the \<open>switch\<close>) was entered; the second is the
  button afterwards. In that branch \<open>lastState\<close> is assigned before the \<open>switch\<close>,
  so the button is the same whether the function returns there or goes on to the
  assignment that ends the loop body.
\<close>

definition pollButton :: "32 word \<Rightarrow> bool \<Rightarrow> ButtonConfig \<Rightarrow> bool \<times> ButtonConfig" where
  "pollButton currentTime currentState b =
     (let b1 = (if currentState \<noteq> lastState b
                then b\<lparr>lastDebounceTime := currentTime\<rparr> else b)
      in if currentTime - lastDebounceTime b1 > DEBOUNCE_DELAY then
           if \<not> pressed b1 \<and> currentState = LOW then
             (True, b1\<lparr>pressed := True, lastState := currentState\<rparr>)
           else if pressed b1 \<and> currentState = HIGH then
             (False, b1\<lparr>pressed := False, lastState := currentState\<rparr>)
           else (False, b1\<lparr>lastState := currentState\<rparr>)
         else (False, b1\<lparr>lastState := currentState\<rparr>))"

text \<open>
  The loop \<open>for (int i = 0; i < 6; i++)\<close> from index \<open>i\<close> on. \<open>digitalRead\<close> gives
  the level of each pin during this call. The result is the returned event and the
  array \<open>m_buttons\<close> afterwards.
\<close>

function readButtons_from ::
  "nat \<Rightarrow> 32 word \<Rightarrow> (int \<Rightarrow> bool) \<Rightarrow> ButtonConfig list \<Rightarrow> SystemEvent \<times> ButtonConfig list" where
  "readButtons_from i currentTime digitalRead bs =
     (if i < 6 then
        (let r = pollButton currentTime (digitalRead (pin (bs ! i))) (bs ! i);
             bs' = bs[i := snd r]
         in if fst r then
              (case switch_event i of
                 Some e \<Rightarrow> (e, bs')
               | None \<Rightarrow> readButtons_from (Suc i) currentTime digitalRead bs')
            else readButtons_from (Suc i) currentTime digitalRead bs')
      else (EVENT_NONE, bs))"
  by pat_completeness auto
termination
  by (relation "measure (\<lambda>(i, currentTime, digitalRead, bs). 6 - i)") auto

definition readButtons ::
  "32 word \<Rightarrow> (int \<Rightarrow> bool) \<Rightarrow> ButtonConfig list \<Rightarrow> SystemEvent \<times> ButtonConfig list" where
  "readButtons currentTime digitalRead bs = readButtons_from 0 currentTime digitalRead bs"

text \<open>
  \<open>millis()\<close> is the platform's clock: the time since the start in milliseconds, as
  an \<open>unsigned long\<close>, which starts again from zero when the 32 bits are used up.
\<close>

definition millis :: "nat \<Rightarrow> 32 word" where
  "millis uptime = of_nat uptime"

text \<open>
  Successive iterations of the loop of \<open>buttonTask\<close>, as far as the buttons are
  concerned: each poll is the time since the start (in milliseconds) at which
  \<open>readButtons\<close> is called, and the pin levels during the call; the result lists
  the event each call returned.
\<close>

type_synonym poll = "nat \<times> (int \<Rightarrow> bool)"

fun poll_events :: "ButtonConfig list \<Rightarrow> poll list \<Rightarrow> SystemEvent list" where
  "poll_events bs [] = []"
| "poll_events bs (p # ps) =
     fst (readButtons (millis (fst p)) (snd p) bs) #
     poll_events (snd (readButtons (millis (fst p)) (snd p) bs)) ps"

text \<open>
  The state handlers. \<open>take1\<close> and \<open>take2\<close> are the outcomes of the first and the
  second \<open>xSemaphoreTake\<close> on the state mutex that the handler's calls into the model
  perform, and \<open>now\<close> is the reading \<open>rtc.now()\<close>. Lines written to the serial console
  are not part of the state.
\<close>

definition handleMenuState ::
  "bool \<Rightarrow> bool \<Rightarrow> DateTime \<Rightarrow> SystemEvent \<Rightarrow> Model \<Rightarrow> Model" where
  "handleMenuState take1 take2 now event m =
     (case event of
        EVENT_UP \<Rightarrow> decrementMenuIndex take1 m
      | EVENT_DOWN \<Rightarrow> incrementMenuIndex take1 m
      | EVENT_SELECT1 \<Rightarrow>
          (let menuIndex = getMenuIndex take1 m
           in if menuIndex = 0 then setCurrentTime now m
              else if menuIndex = 1 then setState take2 STATE_SETTINGS m
              else if menuIndex = 2 then setState take2 STATE_ABOUT m
              else if menuIndex = 3 then setState take2 STATE_CONFIRM_EXIT m
              else m)
      | EVENT_SELECT2 \<Rightarrow> m
      | _ \<Rightarrow> m)"

definition handleSettingsState :: "bool \<Rightarrow> SystemEvent \<Rightarrow> Model \<Rightarrow> Model" where
  "handleSettingsState take1 event m =
     (case event of
        EVENT_LEFT \<Rightarrow> setState take1 STATE_MENU m
      | EVENT_SELECT2 \<Rightarrow> setState take1 STATE_MENU m
      | EVENT_SELECT1 \<Rightarrow> m
      | _ \<Rightarrow> m)"

definition handleAboutState :: "bool \<Rightarrow> SystemEvent \<Rightarrow> Model \<Rightarrow> Model" where
  "handleAboutState take1 event m =
     (case event of
        EVENT_LEFT \<Rightarrow> setState take1 STATE_MENU m
      | EVENT_SELECT2 \<Rightarrow> setState take1 STATE_MENU m
      | _ \<Rightarrow> m)"

definition handleConfirmExitState :: "bool \<Rightarrow> SystemEvent \<Rightarrow> Model \<Rightarrow> Model" where
  "handleConfirmExitState take1 event m =
     (case event of
        EVENT_SELECT1 \<Rightarrow> setState take1 STATE_MENU m
      | EVENT_LEFT \<Rightarrow> setState take1 STATE_MENU m
      | EVENT_SELECT2 \<Rightarrow> setState take1 STATE_MENU m
      | _ \<Rightarrow> m)"

text \<open>
  \<open>handleEvent\<close>: \<open>take0\<close> is the outcome of the \<open>xSemaphoreTake\<close> inside its call of
  \<open>getCurrentState\<close>; the handler it routes to receives the outcomes of the later ones.
\<close>

definition handleEvent ::
  "bool \<Rightarrow> bool \<Rightarrow> bool \<Rightarrow> DateTime \<Rightarrow> SystemEvent \<Rightarrow> Model \<Rightarrow> Model" where
  "handleEvent take0 take1 take2 now event m =
     (case getCurrentState take0 m of
        STATE_MENU \<Rightarrow> handleMenuState take1 take2 now event m
      | STATE_SETTINGS \<Rightarrow> handleSettingsState take1 event m
      | STATE_ABOUT \<Rightarrow> handleAboutState take1 event m
      | STATE_CONFIRM_EXIT \<Rightarrow> handleConfirmExitState take1 event m)"

text \<open>
  One event reaching \<open>handleEvent\<close>, with what the environment contributes to its
  handling, and a sequence of them handled one after the other.
\<close>

record Handling =
  h_event :: SystemEvent
  h_take0 :: bool
  h_take1 :: bool
  h_take2 :: bool
  h_now :: DateTime

fun handleEvents :: "Handling list \<Rightarrow> Model \<Rightarrow> Model" where
  "handleEvents [] m = m"
| "handleEvents (h # hs) m =
     handleEvents hs (handleEvent (h_take0 h) (h_take1 h) (h_take2 h) (h_now h) (h_event h) m)"

section \<open>Synchronization and startup (class Synchronization, main.cpp)\<close>

text \<open>
  The class is declared in \<^verbatim>\<open>src/src/Synchronization.h\<close>; its member functions are in
  \<^verbatim>\<open>src/unnamed/part_002\<close>. The startup is in \<^verbatim>\<open>src/src/main.cpp\<close>.

  The event bits of Synchronization.h. The macros \<open>BIT0\<close> to \<open>BIT3\<close> come from the
  platform headers, where \<open>BITn\<close> is the word whose only set bit is bit \<open>n\<close>.
\<close>

definition BIT :: "nat \<Rightarrow> 32 word" where
  "BIT n = push_bit n 1"

definition STATE_CHANGED_BIT :: "32 word" where "STATE_CHANGED_BIT = BIT 0"
definition DISPLAY_READY_BIT :: "32 word" where "DISPLAY_READY_BIT = BIT 1"
definition CONTROLLER_READY_BIT :: "32 word" where "CONTROLLER_READY_BIT = BIT 2"
definition SYSTEM_SHUTDOWN_BIT :: "32 word" where "SYSTEM_SHUTDOWN_BIT = BIT 3"

text \<open>
  \<open>waitForAllBits\<close> and \<open>waitForSystemReady\<close>. \<open>m_eventGroup\<close> is the handle of the
  event group, \<open>None\<close> for \<open>nullptr\<close>. The wait itself is done by the kernel's
  \<open>xEventGroupWaitBits\<close>, called to wait for all of the bits without clearing them;
  \<open>waited\<close> is the value that call returns: the bits of the event group at the moment
  the wait ended, because the bits were set or because the timeout expired.
\<close>

definition waitForAllBits :: "'h option \<Rightarrow> 32 word \<Rightarrow> 32 word" where
  "waitForAllBits m_eventGroup waited = (if m_eventGroup = None then 0 else waited)"

definition waitForSystemReady :: "'h option \<Rightarrow> 32 word \<Rightarrow> bool" where
  "waitForSystemReady m_eventGroup waited =
     (let requiredBits = DISPLAY_READY_BIT OR CONTROLLER_READY_BIT;
          result = waitForAllBits m_eventGroup waited
      in (result AND requiredBits) = requiredBits)"

text \<open>
  The globals of main.cpp that the startup decides: the flag \<open>g_systemInitialized\<close>,
  the lines that \<open>setup\<close>, \<open>initializeHardware\<close> and \<open>cleanup\<close> write to the serial
  console with \<open>Serial.println\<close>, and whether \<open>abort()\<close> was called.
\<close>

record System =
  g_systemInitialized :: bool
  console :: "string list"
  aborted :: bool

definition System_init :: System where
  "System_init = \<lparr>g_systemInitialized = False, console = [], aborted = False\<rparr>"

definition println :: "string \<Rightarrow> System \<Rightarrow> System" where
  "println line s = s\<lparr>console := console s @ [line]\<rparr>"

text \<open>
  The function \<open>setup()\<close> of main.cpp is \<open>setup_main\<close> below. What the environment
  contributes to one run of it: the results of
  \<open>initializeComponents\<close> and \<open>startTasks\<close> (both depend on the displays, the clock and
  the kernel), the event group handle of the synchronization object and the value its
  wait returns, and the result of \<open>rtc.begin()\<close>.
\<close>

record Startup =
  components_ok :: bool
  tasks_ok :: bool
  sync_eventGroup :: "unit option"
  sync_waited :: "32 word"
  rtc_found :: bool

definition initializeHardware :: "System \<Rightarrow> bool \<times> System" where
  "initializeHardware s =
     (True, println ''Hardware initialization complete''
              (println ''I2C initialized'' (println ''Initializing hardware...'' s)))"

definition cleanup :: "System \<Rightarrow> System" where
  "cleanup s = println ''Cleanup complete'' (println ''Cleaning up system...'' s)"

definition setup_main :: "Startup \<Rightarrow> System \<Rightarrow> System" where
  "setup_main env s =
     (let s1 = println ''=== ESP32 Menu System Starting ==='' s;
          hw = initializeHardware s1
      in if \<not> fst hw then println ''Hardware initialization failed!'' (snd hw)
         else if \<not> components_ok env then
           cleanup (println ''Component initialization failed!'' (snd hw))
         else if \<not> tasks_ok env then
           cleanup (println ''Task startup failed!'' (snd hw))
         else
           (let s2 = (if waitForSystemReady (sync_eventGroup env) (sync_waited env)
                      then println ''=== System Ready ===''
                             ((snd hw)\<lparr>g_systemInitialized := True\<rparr>)
                      else cleanup (println ''System startup timeout!'' (snd hw)))
            in if \<not> rtc_found env
               then (println (''Couldn'' @ [CHR 0x27] @ ''t find RTC'') s2)\<lparr>aborted := True\<rparr>
               else s2))"

text \<open>
  What runs after \<open>setup\<close> and reads or writes \<open>g_systemInitialized\<close>: a pass of
  \<open>loop\<close>, which only reads it, and an iteration of \<open>systemStatusTask\<close>, which is
  given the bits that \<open>getCurrentBits\<close> returns. Nothing runs after \<open>abort()\<close>.
\<close>

definition loop :: "System \<Rightarrow> System" where
  "loop s = s"

definition systemStatusTask :: "32 word \<Rightarrow> System \<Rightarrow> System" where
  "systemStatusTask bits s =
     (if g_systemInitialized s then
        (if bits AND SYSTEM_SHUTDOWN_BIT \<noteq> 0
         then (cleanup s)\<lparr>g_systemInitialized := False\<rparr>
         else s)
      else s)"

datatype Activity = Loop | StatusCheck "32 word"

fun activity :: "Activity \<Rightarrow> System \<Rightarrow> System" where
  "activity Loop s = (if aborted s then s else loop s)"
| "activity (StatusCheck bits) s = (if aborted s then s else systemStatusTask bits s)"

fun activities :: "Activity list \<Rightarrow> System \<Rightarrow> System" where
  "activities [] s = s"
| "activities (a # as) s = activities as (activity a s)"

section \<open>Notions used in the statements\<close>

text \<open>The range of the menu index: the bounds of the static menu item list.\<close>

definition menu_index_in_range :: "Model \<Rightarrow> bool" where
  "menu_index_in_range m = (0 \<le> m_menuIndex m \<and> m_menuIndex m < m_menuLength)"

text \<open>
  A call of a public method of the model, and a sequence of calls, each with the
  outcome of its \<open>xSemaphoreTake\<close>. The reading methods return the model as it is.
\<close>

datatype ModelCall =
    GetMenuIndex | SetMenuIndex int | IncrementMenuIndex | DecrementMenuIndex
  | GetCurrentState | SetState SystemState | HasStateChanged | ClearStateChanged
  | GetCurrentMenuItem | GetMenuItem int | GetMenuLength | SetCurrentTime DateTime

fun call :: "bool \<times> ModelCall \<Rightarrow> Model \<Rightarrow> Model" where
  "call (taken, SetMenuIndex i) m = setMenuIndex taken i m"
| "call (taken, IncrementMenuIndex) m = incrementMenuIndex taken m"
| "call (taken, DecrementMenuIndex) m = decrementMenuIndex taken m"
| "call (taken, SetState s) m = setState taken s m"
| "call (taken, ClearStateChanged) m = clearStateChanged taken m"
| "call (taken, SetCurrentTime dt) m = setCurrentTime dt m"
| "call (taken, _) m = m"

fun calls :: "(bool \<times> ModelCall) list \<Rightarrow> Model \<Rightarrow> Model" where
  "calls [] m = m"
| "calls (c # cs) m = calls cs (call c m)"

text \<open>The numbers of Down and of Up events in a sequence of handled events.\<close>

definition downs :: "Handling list \<Rightarrow> int" where
  "downs hs = int (length (filter (\<lambda>h. h_event h = EVENT_DOWN) hs))"

definition ups :: "Handling list \<Rightarrow> int" where
  "ups hs = int (length (filter (\<lambda>h. h_event h = EVENT_UP) hs))"

text \<open>
  The transition table of the specification (section 4.2): the pairs of a state and an
  event for which the table gives an action. Every other pair has the entry "no
  transition" or no entry at all (Right, Timeout, None).
\<close>

definition transition_table :: "(SystemState \<times> SystemEvent) list" where
  "transition_table =
     [(STATE_MENU, EVENT_UP), (STATE_MENU, EVENT_DOWN), (STATE_MENU, EVENT_SELECT1),
      (STATE_SETTINGS, EVENT_LEFT), (STATE_SETTINGS, EVENT_SELECT2),
      (STATE_ABOUT, EVENT_LEFT), (STATE_ABOUT, EVENT_SELECT2),
      (STATE_CONFIRM_EXIT, EVENT_LEFT), (STATE_CONFIRM_EXIT, EVENT_SELECT2),
      (STATE_CONFIRM_EXIT, EVENT_SELECT1)]"

definition table_entry :: "SystemState \<Rightarrow> SystemEvent \<Rightarrow> bool" where
  "table_entry s e = ((s, e) \<in> set transition_table)"

text \<open>
  The fixed priority order of the six lines: the events of the \<open>switch\<close> of
  \<open>readButtons\<close>, by button index.
\<close>

definition priority_order :: "SystemEvent list" where
  "priority_order =
     [EVENT_UP, EVENT_DOWN, EVENT_LEFT, EVENT_RIGHT, EVENT_SELECT1, EVENT_SELECT2]"

text \<open>
  Pin levels with every line idle (high) except the Up and the Down line, which have
  the given levels.
\<close>

definition up_down_lines :: "bool \<Rightarrow> bool \<Rightarrow> int \<Rightarrow> bool" where
  "up_down_lines up down p =
     (if p = BTN_UP_PIN then up else if p = BTN_DOWN_PIN then down else HIGH)"

text \<open>
  The invariant behind the debounce window, for one button: an event of the button
  was returned at time \<open>t1\<close>, the last poll was at time \<open>now\<close>, and since then
  either the press is still registered, and the line was low at the last look or
  changed at some time \<open>d\<close> between \<open>t1\<close> and \<open>now\<close>, or the release was registered,
  which takes more than the debounce window.
\<close>

definition settled :: "nat \<Rightarrow> nat \<Rightarrow> ButtonConfig \<Rightarrow> bool" where
  "settled t1 now b =
     (t1 \<le> now \<and>
      (if pressed b
       then lastState b = LOW \<or>
            (\<exists>d. t1 \<le> d \<and> d \<le> now \<and> lastDebounceTime b = millis d)
       else t1 + 50 < now))"

section \<open>Properties of the model\<close>

lemma m_menuLength_eq: "m_menuLength = 4"
  by (simp add: m_menuLength_def m_menuItems_def)

lemma c_rem_nonneg: "0 \<le> a \<Longrightarrow> 0 < b \<Longrightarrow> c_rem a b = a mod b"
  by (cases "a = 0") (simp_all add: c_rem_def)

lemma incr_in_range: "menu_index_in_range m \<Longrightarrow> menu_index_in_range (incrementMenuIndex t m)"
  by (simp add: menu_index_in_range_def incrementMenuIndex_def m_menuLength_eq c_rem_nonneg)

lemma decr_in_range: "menu_index_in_range m \<Longrightarrow> menu_index_in_range (decrementMenuIndex t m)"
  by (simp add: menu_index_in_range_def decrementMenuIndex_def m_menuLength_eq c_rem_nonneg)

lemma incr_index:
  "0 \<le> m_menuIndex m \<Longrightarrow>
   m_menuIndex (incrementMenuIndex True m) = (m_menuIndex m + 1) mod 4"
  by (simp add: incrementMenuIndex_def m_menuLength_eq c_rem_nonneg)

lemma decr_index:
  "0 \<le> m_menuIndex m \<Longrightarrow>
   m_menuIndex (decrementMenuIndex True m) = (m_menuIndex m - 1) mod 4"
proof -
  assume a: "0 \<le> m_menuIndex m"
  have "(m_menuIndex m - 1 + 4) mod 4 = (m_menuIndex m - 1) mod 4" by presburger
  with a show ?thesis
    by (simp add: decrementMenuIndex_def m_menuLength_eq c_rem_nonneg)
qed

lemma state_incr: "m_currentState (incrementMenuIndex t m) = m_currentState m"
  by (simp add: incrementMenuIndex_def)

lemma state_decr: "m_currentState (decrementMenuIndex t m) = m_currentState m"
  by (simp add: decrementMenuIndex_def)

text \<open>
  C4. With the state mutex acquired, \<open>setMenuIndex\<close> called with an index outside
  \<open>[0, 4)\<close> returns the model as it was: the menu index, the changed flag and every
  other field keep their values, and nothing is reported.
\<close>

theorem setMenuIndex_out_of_range:
  "i < 0 \<or> 4 \<le> i \<Longrightarrow> setMenuIndex True i m = m"
  by (auto simp: setMenuIndex_def m_menuLength_eq)

theorem setMenuIndex_out_of_range_witness:
  "((7::int) < 0 \<or> 4 \<le> (7::int)) \<and>
   setMenuIndex True 7
     \<lparr>m_menuIndex = 2, m_currentState = STATE_ABOUT, m_stateChanged = False,
      m_currentTime = \<lparr>year = 2000, month = 1, day = 1, hour = 0, minute = 0, second = 0\<rparr>\<rparr>
   = \<lparr>m_menuIndex = 2, m_currentState = STATE_ABOUT, m_stateChanged = False,
      m_currentTime = \<lparr>year = 2000, month = 1, day = 1, hour = 0, minute = 0, second = 0\<rparr>\<rparr>"
  using setMenuIndex_out_of_range [of 7] by simp

text \<open>
  C5, as the code has it. With the state mutex acquired, \<open>setState\<close> called with the
  current state returns the model as it was, changed flag included. \<open>setMenuIndex\<close>
  called with the current index (an index in range) keeps the index and every other
  field, but sets the changed flag: it has no comparison with the current index.
\<close>

theorem set_current_value:
  "(0 \<le> i \<and> i < 4 \<and> i = m_menuIndex m \<longrightarrow>
      setMenuIndex True i m = m\<lparr>m_stateChanged := True\<rparr>) \<and>
   (s = m_currentState m \<longrightarrow> setState True s m = m)"
  by (simp add: setMenuIndex_def setState_def m_menuLength_eq)

theorem set_current_value_witness:
  "setMenuIndex True 2
     \<lparr>m_menuIndex = 2, m_currentState = STATE_ABOUT, m_stateChanged = False,
      m_currentTime = \<lparr>year = 2000, month = 1, day = 1, hour = 0, minute = 0, second = 0\<rparr>\<rparr>
   = \<lparr>m_menuIndex = 2, m_currentState = STATE_ABOUT, m_stateChanged = True,
      m_currentTime = \<lparr>year = 2000, month = 1, day = 1, hour = 0, minute = 0, second = 0\<rparr>\<rparr> \<and>
   setState True STATE_ABOUT
     \<lparr>m_menuIndex = 2, m_currentState = STATE_ABOUT, m_stateChanged = False,
      m_currentTime = \<lparr>year = 2000, month = 1, day = 1, hour = 0, minute = 0, second = 0\<rparr>\<rparr>
   = \<lparr>m_menuIndex = 2, m_currentState = STATE_ABOUT, m_stateChanged = False,
      m_currentTime = \<lparr>year = 2000, month = 1, day = 1, hour = 0, minute = 0, second = 0\<rparr>\<rparr>"
  using set_current_value [of 2
     "\<lparr>m_menuIndex = 2, m_currentState = STATE_ABOUT, m_stateChanged = False,
      m_currentTime = \<lparr>year = 2000, month = 1, day = 1, hour = 0, minute = 0, second = 0\<rparr>\<rparr>"
     STATE_ABOUT]
  by simp

text \<open>
  C5, as the claim states it, fails: in the model that the constructor builds the menu
  index is \<open>0\<close> and the changed flag is clear; \<open>setMenuIndex(0)\<close>, with the mutex
  acquired, sets the flag.
\<close>

theorem setMenuIndex_current_sets_flag:
  "m_menuIndex
     (Model_ctor \<lparr>year = 2000, month = 1, day = 1, hour = 0, minute = 0, second = 0\<rparr>) = 0 \<and>
   \<not> m_stateChanged
     (Model_ctor \<lparr>year = 2000, month = 1, day = 1, hour = 0, minute = 0, second = 0\<rparr>) \<and>
   m_stateChanged
     (setMenuIndex True 0
        (Model_ctor \<lparr>year = 2000, month = 1, day = 1, hour = 0, minute = 0, second = 0\<rparr>))"
  by (simp add: setMenuIndex_def Model_ctor_def m_menuLength_eq)

text \<open>
  C6, as the code has it. When the state mutex is not acquired within the timeout,
  \<open>getMenuIndex\<close> returns \<open>0\<close> and \<open>getCurrentState\<close> returns \<open>STATE_MENU\<close>, whatever the
  model holds and whatever an earlier read returned: the value each function
  initialises its result with.
\<close>

theorem read_without_lock:
  "getMenuIndex False m = 0 \<and> getCurrentState False m = STATE_MENU"
  by (simp add: getMenuIndex_def getCurrentState_def)

theorem read_without_lock_witness:
  "getMenuIndex False
     \<lparr>m_menuIndex = 2, m_currentState = STATE_ABOUT, m_stateChanged = False,
      m_currentTime = \<lparr>year = 2000, month = 1, day = 1, hour = 0, minute = 0, second = 0\<rparr>\<rparr> = 0 \<and>
   getCurrentState False
     \<lparr>m_menuIndex = 2, m_currentState = STATE_ABOUT, m_stateChanged = False,
      m_currentTime = \<lparr>year = 2000, month = 1, day = 1, hour = 0, minute = 0, second = 0\<rparr>\<rparr>
     = STATE_MENU"
  by (rule read_without_lock)

text \<open>
  C6, as the claim states it, fails. After Down, Down, Select1 from the constructed
  model, a read that acquires the mutex observes index \<open>2\<close> and state
  \<open>STATE_ABOUT\<close>; the next read, of the same model, that does not acquire it
  returns neither.
\<close>

theorem read_without_lock_not_last_observed:
  "getMenuIndex True
     (handleEvents
        [\<lparr>h_event = EVENT_DOWN, h_take0 = True, h_take1 = True, h_take2 = True,
          h_now = \<lparr>year = 2000, month = 1, day = 1, hour = 0, minute = 0, second = 0\<rparr>\<rparr>,
         \<lparr>h_event = EVENT_DOWN, h_take0 = True, h_take1 = True, h_take2 = True,
          h_now = \<lparr>year = 2000, month = 1, day = 1, hour = 0, minute = 0, second = 0\<rparr>\<rparr>,
         \<lparr>h_event = EVENT_SELECT1, h_take0 = True, h_take1 = True, h_take2 = True,
          h_now = \<lparr>year = 2000, month = 1, day = 1, hour = 0, minute = 0, second = 0\<rparr>\<rparr>]
        (Model_ctor \<lparr>year = 2000, month = 1, day = 1, hour = 0, minute = 0, second = 0\<rparr>))
     = 2 \<and>
   getMenuIndex False
     (handleEvents
        [\<lparr>h_event = EVENT_DOWN, h_take0 = True, h_take1 = True, h_take2 = True,
          h_now = \<lparr>year = 2000, month = 1, day = 1, hour = 0, minute = 0, second = 0\<rparr>\<rparr>,
         \<lparr>h_event = EVENT_DOWN, h_take0 = True, h_take1 = True, h_take2 = True,
          h_now = \<lparr>year = 2000, month = 1, day = 1, hour = 0, minute = 0, second = 0\<rparr>\<rparr>,
         \<lparr>h_event = EVENT_SELECT1, h_take0 = True, h_take1 = True, h_take2 = True,
          h_now = \<lparr>year = 2000, month = 1, day = 1, hour = 0, minute = 0, second = 0\<rparr>\<rparr>]
        (Model_ctor \<lparr>year = 2000, month = 1, day = 1, hour = 0, minute = 0, second = 0\<rparr>))
     \<noteq> 2 \<and>
   getCurrentState True
     (handleEvents
        [\<lparr>h_event = EVENT_DOWN, h_take0 = True, h_take1 = True, h_take2 = True,
          h_now = \<lparr>year = 2000, month = 1, day = 1, hour = 0, minute = 0, second = 0\<rparr>\<rparr>,
         \<lparr>h_event = EVENT_DOWN, h_take0 = True, h_take1 = True, h_take2 = True,
          h_now = \<lparr>year = 2000, month = 1, day = 1, hour = 0, minute = 0, second = 0\<rparr>\<rparr>,
         \<lparr>h_event = EVENT_SELECT1, h_take0 = True, h_take1 = True, h_take2 = True,
          h_now = \<lparr>year = 2000, month = 1, day = 1, hour = 0, minute = 0, second = 0\<rparr>\<rparr>]
        (Model_ctor \<lparr>year = 2000, month = 1, day = 1, hour = 0, minute = 0, second = 0\<rparr>))
     = STATE_ABOUT \<and>
   getCurrentState False
     (handleEvents
        [\<lparr>h_event = EVENT_DOWN, h_take0 = True, h_take1 = True, h_take2 = True,
          h_now = \<lparr>year = 2000, month = 1, day = 1, hour = 0, minute = 0, second = 0\<rparr>\<rparr>,
         \<lparr>h_event = EVENT_DOWN, h_take0 = True, h_take1 = True, h_take2 = True,
          h_now = \<lparr>year = 2000, month = 1, day = 1, hour = 0, minute = 0, second = 0\<rparr>\<rparr>,
         \<lparr>h_event = EVENT_SELECT1, h_take0 = True, h_take1 = True, h_take2 = True,
          h_now = \<lparr>year = 2000, month = 1, day = 1, hour = 0, minute = 0, second = 0\<rparr>\<rparr>]
        (Model_ctor \<lparr>year = 2000, month = 1, day = 1, hour = 0, minute = 0, second = 0\<rparr>))
     \<noteq> STATE_ABOUT"
  by (simp add: Model_ctor_def handleEvent_def getCurrentState_def handleMenuState_def
      incrementMenuIndex_def m_menuLength_eq c_rem_def getMenuIndex_def setState_def)

lemma call_in_range: "menu_index_in_range m \<Longrightarrow> menu_index_in_range (call c m)"
proof (cases c)
  case (Pair taken k)
  assume r: "menu_index_in_range m"
  show ?thesis
  proof (cases k)
    case (SetMenuIndex i)
    with Pair r show ?thesis by (simp add: setMenuIndex_def menu_index_in_range_def)
  next
    case IncrementMenuIndex
    with Pair r show ?thesis by (simp add: incr_in_range)
  next
    case DecrementMenuIndex
    with Pair r show ?thesis by (simp add: decr_in_range)
  next
    case (SetState s)
    with Pair r show ?thesis by (simp add: setState_def menu_index_in_range_def)
  next
    case ClearStateChanged
    with Pair r show ?thesis by (simp add: clearStateChanged_def menu_index_in_range_def)
  next
    case (SetCurrentTime dt)
    with Pair r show ?thesis by (simp add: setCurrentTime_def menu_index_in_range_def)
  qed (use Pair r in simp_all)
qed

lemma calls_in_range: "menu_index_in_range m \<Longrightarrow> menu_index_in_range (calls cs m)"
  by (induction cs arbitrary: m) (simp_all add: call_in_range)

lemma ctor_in_range: "menu_index_in_range (Model_ctor dt0)"
  by (simp add: menu_index_in_range_def Model_ctor_def m_menuLength_eq)

text \<open>
  C7. From the constructed model, after every sequence of calls of the model's
  methods (\<open>setMenuIndex\<close> with any argument, \<open>incrementMenuIndex\<close>,
  \<open>decrementMenuIndex\<close>, \<open>setState\<close>, \<open>clearStateChanged\<close>, \<open>setCurrentTime\<close> and the
  reads), whether each call acquires the state mutex or not, the menu index is at
  least \<open>0\<close> and less than the menu length \<open>4\<close>.
\<close>

theorem menu_index_invariant:
  "m_menuLength = 4 \<and>
   0 \<le> m_menuIndex (calls cs (Model_ctor dt0)) \<and>
   m_menuIndex (calls cs (Model_ctor dt0)) < m_menuLength"
proof -
  have "menu_index_in_range (calls cs (Model_ctor dt0))"
    using ctor_in_range by (rule calls_in_range)
  then show ?thesis by (simp add: menu_index_in_range_def m_menuLength_eq)
qed

theorem menu_index_invariant_witness:
  "m_menuIndex
     (calls [(True, SetMenuIndex 7), (True, DecrementMenuIndex), (False, IncrementMenuIndex),
             (True, SetMenuIndex (- 1)), (True, SetState STATE_ABOUT), (True, GetMenuIndex)]
        (Model_ctor \<lparr>year = 2000, month = 1, day = 1, hour = 0, minute = 0, second = 0\<rparr>)) = 3 \<and>
   0 \<le> m_menuIndex
     (calls [(True, SetMenuIndex 7), (True, DecrementMenuIndex), (False, IncrementMenuIndex),
             (True, SetMenuIndex (- 1)), (True, SetState STATE_ABOUT), (True, GetMenuIndex)]
        (Model_ctor \<lparr>year = 2000, month = 1, day = 1, hour = 0, minute = 0, second = 0\<rparr>)) \<and>
   m_menuIndex
     (calls [(True, SetMenuIndex 7), (True, DecrementMenuIndex), (False, IncrementMenuIndex),
             (True, SetMenuIndex (- 1)), (True, SetState STATE_ABOUT), (True, GetMenuIndex)]
        (Model_ctor \<lparr>year = 2000, month = 1, day = 1, hour = 0, minute = 0, second = 0\<rparr>)) < 4"
proof -
  let ?m = "calls [(True, SetMenuIndex 7), (True, DecrementMenuIndex), (False, IncrementMenuIndex),
             (True, SetMenuIndex (- 1)), (True, SetState STATE_ABOUT), (True, GetMenuIndex)]
        (Model_ctor \<lparr>year = 2000, month = 1, day = 1, hour = 0, minute = 0, second = 0\<rparr>)"
  have v: "m_menuIndex ?m = 3"
    by (simp add: Model_ctor_def setMenuIndex_def decrementMenuIndex_def incrementMenuIndex_def
        setState_def m_menuLength_eq c_rem_def)
  note th = menu_index_invariant [of
     "[(True, SetMenuIndex 7), (True, DecrementMenuIndex), (False, IncrementMenuIndex),
       (True, SetMenuIndex (- 1)), (True, SetState STATE_ABOUT), (True, GetMenuIndex)]"
     "\<lparr>year = 2000, month = 1, day = 1, hour = 0, minute = 0, second = 0\<rparr>"]
  from th have "0 \<le> m_menuIndex ?m" and "m_menuIndex ?m < 4"
    by (simp_all only: m_menuLength_eq)
  with v show ?thesis by (intro conjI)
qed

text \<open>
  C10. \<open>getMenuItem\<close> returns a string for every integer: \<open>"Invalid"\<close> for an index
  outside \<open>[0, 4)\<close>, where the array \<open>m_menuItems\<close> is not read, and the element of the
  array at the index otherwise. So \<open>getCurrentMenuItem\<close> never returns a null pointer,
  in any model and whether it acquires the mutex or not, and from the constructed
  model, after any sequence of calls, it returns the menu item at the index that
  \<open>getMenuIndex\<close> gave it.
\<close>

theorem getMenuItem_total:
  "(i < 0 \<or> 4 \<le> i \<longrightarrow> getMenuItem i = Some ''Invalid'') \<and>
   (0 \<le> i \<and> i < 4 \<longrightarrow> getMenuItem i = Some (m_menuItems ! nat i)) \<and>
   getMenuItem i \<noteq> None \<and>
   getCurrentMenuItem taken m \<noteq> None \<and>
   getCurrentMenuItem taken (calls cs (Model_ctor dt0)) =
     Some (m_menuItems ! nat (getMenuIndex taken (calls cs (Model_ctor dt0))))"
proof -
  have a: "i < 0 \<or> 4 \<le> i \<longrightarrow> getMenuItem i = Some ''Invalid''"
    by (auto simp: getMenuItem_def m_menuLength_eq)
  have b: "0 \<le> i \<and> i < 4 \<longrightarrow> getMenuItem i = Some (m_menuItems ! nat i)" for i
    by (simp add: getMenuItem_def read_menuItems_def m_menuLength_eq m_menuItems_def)
  have c: "getMenuItem i \<noteq> None" for i
    by (simp add: getMenuItem_def read_menuItems_def m_menuLength_def)
  have d: "getCurrentMenuItem taken m \<noteq> None"
    by (simp add: getCurrentMenuItem_def c)
  have "menu_index_in_range (calls cs (Model_ctor dt0))"
    using ctor_in_range by (rule calls_in_range)
  then have "0 \<le> getMenuIndex taken (calls cs (Model_ctor dt0)) \<and>
             getMenuIndex taken (calls cs (Model_ctor dt0)) < 4"
    by (simp add: getMenuIndex_def menu_index_in_range_def m_menuLength_eq)
  with b have e: "getCurrentMenuItem taken (calls cs (Model_ctor dt0)) =
     Some (m_menuItems ! nat (getMenuIndex taken (calls cs (Model_ctor dt0))))"
    by (simp add: getCurrentMenuItem_def)
  from a b c d e show ?thesis by blast
qed

theorem getMenuItem_total_witness:
  "getMenuItem 7 = Some ''Invalid'' \<and> getMenuItem (- 1) = Some ''Invalid'' \<and>
   getMenuItem 2 = Some ''About'' \<and>
   getCurrentMenuItem True
     (calls [(True, IncrementMenuIndex)]
        (Model_ctor \<lparr>year = 2000, month = 1, day = 1, hour = 0, minute = 0, second = 0\<rparr>))
     = Some ''Settings''"
proof -
  have a: "getMenuItem 7 = Some ''Invalid''"
    using getMenuItem_total [of 7, THEN conjunct1] by simp
  have b: "getMenuItem (- 1) = Some ''Invalid''"
    using getMenuItem_total [of "- 1", THEN conjunct1] by simp
  have c: "getMenuItem 2 = Some ''About''"
    using getMenuItem_total [of 2, THEN conjunct2, THEN conjunct1]
    by (simp add: m_menuItems_def)
  have d: "getCurrentMenuItem True
     (calls [(True, IncrementMenuIndex)]
        (Model_ctor \<lparr>year = 2000, month = 1, day = 1, hour = 0, minute = 0, second = 0\<rparr>))
     = Some ''Settings''"
    using getMenuItem_total [of 0 True
        "Model_ctor \<lparr>year = 2000, month = 1, day = 1, hour = 0, minute = 0, second = 0\<rparr>"
        "[(True, IncrementMenuIndex)]"
        "\<lparr>year = 2000, month = 1, day = 1, hour = 0, minute = 0, second = 0\<rparr>",
        THEN conjunct2, THEN conjunct2, THEN conjunct2, THEN conjunct2]
    by (simp add: m_menuItems_def getMenuIndex_def incrementMenuIndex_def Model_ctor_def
        m_menuLength_eq c_rem_def)
  from a b c d show ?thesis by (intro conjI)
qed

section \<open>Properties of the event handlers\<close>

lemma handleEvent_menu_up:
  "m_currentState m = STATE_MENU \<Longrightarrow>
   handleEvent True True t2 now EVENT_UP m = decrementMenuIndex True m"
  by (simp add: handleEvent_def getCurrentState_def handleMenuState_def)

lemma handleEvent_menu_down:
  "m_currentState m = STATE_MENU \<Longrightarrow>
   handleEvent True True t2 now EVENT_DOWN m = incrementMenuIndex True m"
  by (simp add: handleEvent_def getCurrentState_def handleMenuState_def)

lemma mod4_shift: "(x mod 4 + d - u) mod 4 = (x + d - u) mod (4::int)"
proof -
  have "(x mod 4 + (d - u)) mod 4 = (x + (d - u)) mod 4" by (rule mod_add_left_eq)
  then show ?thesis by (simp add: algebra_simps)
qed

lemma handleEvents_up_down:
  "m_currentState m = STATE_MENU \<Longrightarrow> menu_index_in_range m \<Longrightarrow>
   \<forall>h\<in>set hs. (h_event h = EVENT_UP \<or> h_event h = EVENT_DOWN) \<and> h_take0 h \<and> h_take1 h \<Longrightarrow>
   m_menuIndex (handleEvents hs m) = (m_menuIndex m + downs hs - ups hs) mod 4"
proof (induction hs arbitrary: m)
  case Nil
  then show ?case by (simp add: downs_def ups_def menu_index_in_range_def m_menuLength_eq)
next
  case (Cons h hs)
  from Cons.prems have r: "0 \<le> m_menuIndex m" by (simp add: menu_index_in_range_def)
  from Cons.prems have h: "h_event h = EVENT_UP \<or> h_event h = EVENT_DOWN" "h_take0 h" "h_take1 h"
    by simp_all
  from Cons.prems
  have rest: "\<forall>h\<in>set hs. (h_event h = EVENT_UP \<or> h_event h = EVENT_DOWN) \<and> h_take0 h \<and> h_take1 h"
    by simp
  from h(1) show ?case
  proof
    assume up: "h_event h = EVENT_UP"
    let ?m' = "decrementMenuIndex True m"
    have step: "handleEvent (h_take0 h) (h_take1 h) (h_take2 h) (h_now h) (h_event h) m = ?m'"
      using up h(2,3) Cons.prems(1) by (simp add: handleEvent_menu_up)
    have "m_menuIndex (handleEvents hs ?m') = (m_menuIndex ?m' + downs hs - ups hs) mod 4"
      using Cons.prems rest by (intro Cons.IH) (simp_all add: state_decr decr_in_range)
    also have "\<dots> = ((m_menuIndex m - 1) mod 4 + downs hs - ups hs) mod 4"
      using r by (simp add: decr_index)
    also have "\<dots> = (m_menuIndex m + downs (h # hs) - ups (h # hs)) mod 4"
      using up mod4_shift [of "m_menuIndex m - 1" "downs hs" "ups hs"]
      by (simp add: downs_def ups_def algebra_simps)
    finally show ?thesis using step by simp
  next
    assume down: "h_event h = EVENT_DOWN"
    let ?m' = "incrementMenuIndex True m"
    have step: "handleEvent (h_take0 h) (h_take1 h) (h_take2 h) (h_now h) (h_event h) m = ?m'"
      using down h(2,3) Cons.prems(1) by (simp add: handleEvent_menu_down)
    have "m_menuIndex (handleEvents hs ?m') = (m_menuIndex ?m' + downs hs - ups hs) mod 4"
      using Cons.prems rest by (intro Cons.IH) (simp_all add: state_incr incr_in_range)
    also have "\<dots> = ((m_menuIndex m + 1) mod 4 + downs hs - ups hs) mod 4"
      using r by (simp add: incr_index)
    also have "\<dots> = (m_menuIndex m + downs (h # hs) - ups (h # hs)) mod 4"
      using down mod4_shift [of "m_menuIndex m + 1" "downs hs" "ups hs"]
      by (simp add: downs_def ups_def algebra_simps)
    finally show ?thesis using step by simp
  qed
qed

text \<open>
  C1. Let the state be \<open>STATE_MENU\<close> and the menu index in range. After any finite
  sequence of Up and Down events handled by \<open>handleEvent\<close> (which routes each of them
  to \<open>handleMenuState\<close>, Up to \<open>decrementMenuIndex\<close> and Down to
  \<open>incrementMenuIndex\<close>), with the two lock acquisitions that handling such an event
  performs succeeding, the menu index is the initial index plus the number of Downs
  minus the number of Ups, modulo the menu length, which is \<open>4\<close>.
\<close>

theorem menu_index_after_up_down:
  assumes "m_currentState m = STATE_MENU" and "menu_index_in_range m"
    and "\<forall>h\<in>set hs. (h_event h = EVENT_UP \<or> h_event h = EVENT_DOWN) \<and> h_take0 h \<and> h_take1 h"
  shows "m_menuIndex (handleEvents hs m) = (m_menuIndex m + downs hs - ups hs) mod m_menuLength \<and>
         m_menuLength = 4"
  using handleEvents_up_down [OF assms] by (simp add: m_menuLength_eq)

theorem menu_index_after_up_down_witness:
  "m_currentState
     (Model_ctor \<lparr>year = 2000, month = 1, day = 1, hour = 0, minute = 0, second = 0\<rparr>)
     = STATE_MENU \<and>
   menu_index_in_range
     (Model_ctor \<lparr>year = 2000, month = 1, day = 1, hour = 0, minute = 0, second = 0\<rparr>) \<and>
   m_menuIndex
     (handleEvents
        [\<lparr>h_event = EVENT_UP, h_take0 = True, h_take1 = True, h_take2 = True,
          h_now = \<lparr>year = 2000, month = 1, day = 1, hour = 0, minute = 0, second = 0\<rparr>\<rparr>,
         \<lparr>h_event = EVENT_UP, h_take0 = True, h_take1 = True, h_take2 = True,
          h_now = \<lparr>year = 2000, month = 1, day = 1, hour = 0, minute = 0, second = 0\<rparr>\<rparr>,
         \<lparr>h_event = EVENT_DOWN, h_take0 = True, h_take1 = True, h_take2 = True,
          h_now = \<lparr>year = 2000, month = 1, day = 1, hour = 0, minute = 0, second = 0\<rparr>\<rparr>]
        (Model_ctor \<lparr>year = 2000, month = 1, day = 1, hour = 0, minute = 0, second = 0\<rparr>))
     = 3"
proof -
  let ?m = "Model_ctor \<lparr>year = 2000, month = 1, day = 1, hour = 0, minute = 0, second = 0\<rparr>"
  let ?hs = "[\<lparr>h_event = EVENT_UP, h_take0 = True, h_take1 = True, h_take2 = True,
          h_now = \<lparr>year = 2000, month = 1, day = 1, hour = 0, minute = 0, second = 0\<rparr>\<rparr>,
         \<lparr>h_event = EVENT_UP, h_take0 = True, h_take1 = True, h_take2 = True,
          h_now = \<lparr>year = 2000, month = 1, day = 1, hour = 0, minute = 0, second = 0\<rparr>\<rparr>,
         \<lparr>h_event = EVENT_DOWN, h_take0 = True, h_take1 = True, h_take2 = True,
          h_now = \<lparr>year = 2000, month = 1, day = 1, hour = 0, minute = 0, second = 0\<rparr>\<rparr>]"
  have p1: "m_currentState ?m = STATE_MENU" by (simp add: Model_ctor_def)
  have p2: "menu_index_in_range ?m" by (rule ctor_in_range)
  have p3: "\<forall>h\<in>set ?hs. (h_event h = EVENT_UP \<or> h_event h = EVENT_DOWN) \<and> h_take0 h \<and> h_take1 h"
    by simp
  have "m_menuIndex (handleEvents ?hs ?m) = (m_menuIndex ?m + downs ?hs - ups ?hs) mod m_menuLength"
    using menu_index_after_up_down [OF p1 p2 p3] by (rule conjunct1)
  also have "\<dots> = 3" by (simp add: Model_ctor_def downs_def ups_def m_menuLength_eq)
  finally have v: "m_menuIndex (handleEvents ?hs ?m) = 3" .
  from p1 p2 v show ?thesis by (intro conjI)
qed

text \<open>
  C2. The menu items are Home, Settings, About, Exit. From the constructed model
  (state \<open>STATE_MENU\<close>, index \<open>0\<close>), handling Down, Down, Select1 with \<open>handleEvent\<close>,
  every lock acquisition succeeding, ends in state \<open>STATE_ABOUT\<close> with index \<open>2\<close>. And
  in state \<open>STATE_MENU\<close>, Select1 is dispatched on the index: at \<open>0\<close> only the stored
  time is refreshed (state, index and changed flag stay), at \<open>1\<close> the state becomes
  \<open>STATE_SETTINGS\<close>, at \<open>2\<close> \<open>STATE_ABOUT\<close>, at \<open>3\<close> \<open>STATE_CONFIRM_EXIT\<close>.
\<close>

theorem select1_dispatch:
  "m_menuItems = [''Home'', ''Settings'', ''About'', ''Exit''] \<and>
   m_currentState
     (handleEvents
        [\<lparr>h_event = EVENT_DOWN, h_take0 = True, h_take1 = True, h_take2 = True, h_now = n1\<rparr>,
         \<lparr>h_event = EVENT_DOWN, h_take0 = True, h_take1 = True, h_take2 = True, h_now = n2\<rparr>,
         \<lparr>h_event = EVENT_SELECT1, h_take0 = True, h_take1 = True, h_take2 = True, h_now = n3\<rparr>]
        (Model_ctor dt0)) = STATE_ABOUT \<and>
   m_menuIndex
     (handleEvents
        [\<lparr>h_event = EVENT_DOWN, h_take0 = True, h_take1 = True, h_take2 = True, h_now = n1\<rparr>,
         \<lparr>h_event = EVENT_DOWN, h_take0 = True, h_take1 = True, h_take2 = True, h_now = n2\<rparr>,
         \<lparr>h_event = EVENT_SELECT1, h_take0 = True, h_take1 = True, h_take2 = True, h_now = n3\<rparr>]
        (Model_ctor dt0)) = 2 \<and>
   (m_currentState m = STATE_MENU \<and> menu_index_in_range m \<longrightarrow>
      handleEvent True True True now EVENT_SELECT1 m =
        (if m_menuIndex m = 0 then m\<lparr>m_currentTime := now\<rparr>
         else if m_menuIndex m = 1
           then m\<lparr>m_currentState := STATE_SETTINGS, m_stateChanged := True\<rparr>
         else if m_menuIndex m = 2
           then m\<lparr>m_currentState := STATE_ABOUT, m_stateChanged := True\<rparr>
         else m\<lparr>m_currentState := STATE_CONFIRM_EXIT, m_stateChanged := True\<rparr>))"
proof -
  have a: "m_menuItems = [''Home'', ''Settings'', ''About'', ''Exit'']"
    by (simp add: m_menuItems_def)
  let ?r = "handleEvents
        [\<lparr>h_event = EVENT_DOWN, h_take0 = True, h_take1 = True, h_take2 = True, h_now = n1\<rparr>,
         \<lparr>h_event = EVENT_DOWN, h_take0 = True, h_take1 = True, h_take2 = True, h_now = n2\<rparr>,
         \<lparr>h_event = EVENT_SELECT1, h_take0 = True, h_take1 = True, h_take2 = True, h_now = n3\<rparr>]
        (Model_ctor dt0)"
  have r: "?r = \<lparr>m_menuIndex = 2, m_currentState = STATE_ABOUT, m_stateChanged = True,
                 m_currentTime = dt0\<rparr>"
    by (simp add: Model_ctor_def handleEvent_def getCurrentState_def handleMenuState_def
        incrementMenuIndex_def m_menuLength_eq c_rem_def getMenuIndex_def setState_def)
  have d: "m_currentState m = STATE_MENU \<and> menu_index_in_range m \<longrightarrow>
      handleEvent True True True now EVENT_SELECT1 m =
        (if m_menuIndex m = 0 then m\<lparr>m_currentTime := now\<rparr>
         else if m_menuIndex m = 1
           then m\<lparr>m_currentState := STATE_SETTINGS, m_stateChanged := True\<rparr>
         else if m_menuIndex m = 2
           then m\<lparr>m_currentState := STATE_ABOUT, m_stateChanged := True\<rparr>
         else m\<lparr>m_currentState := STATE_CONFIRM_EXIT, m_stateChanged := True\<rparr>)"
    by (auto simp: handleEvent_def getCurrentState_def handleMenuState_def getMenuIndex_def
        setState_def setCurrentTime_def menu_index_in_range_def m_menuLength_eq)
  from a r d show ?thesis by simp
qed

theorem select1_dispatch_witness:
  "handleEvent True True True
     \<lparr>year = 2024, month = 5, day = 17, hour = 9, minute = 30, second = 0\<rparr> EVENT_SELECT1
     \<lparr>m_menuIndex = 0, m_currentState = STATE_MENU, m_stateChanged = False,
      m_currentTime = \<lparr>year = 2000, month = 1, day = 1, hour = 0, minute = 0, second = 0\<rparr>\<rparr>
   = \<lparr>m_menuIndex = 0, m_currentState = STATE_MENU, m_stateChanged = False,
      m_currentTime = \<lparr>year = 2024, month = 5, day = 17, hour = 9, minute = 30, second = 0\<rparr>\<rparr> \<and>
   handleEvent True True True
     \<lparr>year = 2024, month = 5, day = 17, hour = 9, minute = 30, second = 0\<rparr> EVENT_SELECT1
     \<lparr>m_menuIndex = 3, m_currentState = STATE_MENU, m_stateChanged = False,
      m_currentTime = \<lparr>year = 2000, month = 1, day = 1, hour = 0, minute = 0, second = 0\<rparr>\<rparr>
   = \<lparr>m_menuIndex = 3, m_currentState = STATE_CONFIRM_EXIT, m_stateChanged = True,
      m_currentTime = \<lparr>year = 2000, month = 1, day = 1, hour = 0, minute = 0, second = 0\<rparr>\<rparr>"
proof -
  let ?now = "\<lparr>year = 2024, month = 5, day = 17, hour = 9, minute = 30, second = 0\<rparr>"
  let ?m0 = "\<lparr>m_menuIndex = 0, m_currentState = STATE_MENU, m_stateChanged = False,
      m_currentTime = \<lparr>year = 2000, month = 1, day = 1, hour = 0, minute = 0, second = 0\<rparr>\<rparr>"
  let ?m3 = "\<lparr>m_menuIndex = 3, m_currentState = STATE_MENU, m_stateChanged = False,
      m_currentTime = \<lparr>year = 2000, month = 1, day = 1, hour = 0, minute = 0, second = 0\<rparr>\<rparr>"
  have p0: "m_currentState ?m0 = STATE_MENU \<and> menu_index_in_range ?m0"
    by (simp add: menu_index_in_range_def m_menuLength_eq)
  have p3: "m_currentState ?m3 = STATE_MENU \<and> menu_index_in_range ?m3"
    by (simp add: menu_index_in_range_def m_menuLength_eq)
  note d0 = select1_dispatch [where m = ?m0 and now = ?now,
      THEN conjunct2, THEN conjunct2, THEN conjunct2, rule_format, OF p0]
  note d3 = select1_dispatch [where m = ?m3 and now = ?now,
      THEN conjunct2, THEN conjunct2, THEN conjunct2, rule_format, OF p3]
  from d0 d3 show ?thesis by simp
qed

lemma handleMenuState_state:
  "e \<noteq> EVENT_SELECT1 \<Longrightarrow>
   m_currentState (handleMenuState t1 t2 now e m) = m_currentState m"
  by (cases e) (simp_all add: handleMenuState_def incrementMenuIndex_def decrementMenuIndex_def)

text \<open>
  C8, as the code has it. For every pair of a state and an event for which the
  transition table gives no action, \<open>handleEvent\<close> leaves the state unchanged whenever
  its read of the current state acquires the state mutex, and, for every event other
  than Select1, also when that read times out.
\<close>

theorem unlisted_pair_keeps_state:
  assumes "\<not> table_entry (m_currentState m) e" and "t0 \<or> e \<noteq> EVENT_SELECT1"
  shows "m_currentState (handleEvent t0 t1 t2 now e m) = m_currentState m"
proof (cases t0)
  case True
  with assms(1) show ?thesis
    by (cases "m_currentState m"; cases e)
       (simp_all add: table_entry_def transition_table_def handleEvent_def getCurrentState_def
          handleMenuState_def handleSettingsState_def handleAboutState_def
          handleConfirmExitState_def)
next
  case False
  with assms(2) have "e \<noteq> EVENT_SELECT1" by simp
  with False show ?thesis
    by (simp add: handleEvent_def getCurrentState_def handleMenuState_state)
qed

theorem unlisted_pair_keeps_state_witness:
  "\<not> table_entry STATE_ABOUT EVENT_SELECT1 \<and>
   m_currentState
     (handleEvent True True True
        \<lparr>year = 2000, month = 1, day = 1, hour = 0, minute = 0, second = 0\<rparr> EVENT_SELECT1
        \<lparr>m_menuIndex = 2, m_currentState = STATE_ABOUT, m_stateChanged = False,
         m_currentTime = \<lparr>year = 2000, month = 1, day = 1, hour = 0, minute = 0, second = 0\<rparr>\<rparr>)
     = STATE_ABOUT \<and>
   \<not> table_entry STATE_SETTINGS EVENT_TIMEOUT \<and>
   m_currentState
     (handleEvent False True True
        \<lparr>year = 2000, month = 1, day = 1, hour = 0, minute = 0, second = 0\<rparr> EVENT_TIMEOUT
        \<lparr>m_menuIndex = 1, m_currentState = STATE_SETTINGS, m_stateChanged = False,
         m_currentTime = \<lparr>year = 2000, month = 1, day = 1, hour = 0, minute = 0, second = 0\<rparr>\<rparr>)
     = STATE_SETTINGS"
proof -
  let ?dt = "\<lparr>year = 2000, month = 1, day = 1, hour = 0, minute = 0, second = 0\<rparr>"
  let ?ma = "\<lparr>m_menuIndex = 2, m_currentState = STATE_ABOUT, m_stateChanged = False,
         m_currentTime = ?dt\<rparr>"
  let ?ms = "\<lparr>m_menuIndex = 1, m_currentState = STATE_SETTINGS, m_stateChanged = False,
         m_currentTime = ?dt\<rparr>"
  have a1: "\<not> table_entry (m_currentState ?ma) EVENT_SELECT1"
    by (simp add: table_entry_def transition_table_def)
  have a2: "True \<or> EVENT_SELECT1 \<noteq> EVENT_SELECT1" by simp
  have s1: "\<not> table_entry (m_currentState ?ms) EVENT_TIMEOUT"
    by (simp add: table_entry_def transition_table_def)
  have s2: "False \<or> EVENT_TIMEOUT \<noteq> EVENT_SELECT1" by simp
  from a1 s1 unlisted_pair_keeps_state [OF a1 a2, of True True ?dt]
    unlisted_pair_keeps_state [OF s1 s2, of True True ?dt]
  show ?thesis by simp
qed

text \<open>
  C8, as the claim states it, fails. From the constructed model, Down and Select1
  lead to state \<open>STATE_SETTINGS\<close>. A Down whose state read times out is handled as in
  the menu and moves the index to \<open>2\<close>; the state is still \<open>STATE_SETTINGS\<close>. Then
  Select1, for which the table gives no action in \<open>STATE_SETTINGS\<close>, with the state
  read timing out again, changes the state to \<open>STATE_ABOUT\<close>.
\<close>

theorem unlisted_pair_changes_state:
  "\<not> table_entry STATE_SETTINGS EVENT_SELECT1 \<and>
   m_currentState
     (handleEvents
        [\<lparr>h_event = EVENT_DOWN, h_take0 = True, h_take1 = True, h_take2 = True,
          h_now = \<lparr>year = 2000, month = 1, day = 1, hour = 0, minute = 0, second = 0\<rparr>\<rparr>,
         \<lparr>h_event = EVENT_SELECT1, h_take0 = True, h_take1 = True, h_take2 = True,
          h_now = \<lparr>year = 2000, month = 1, day = 1, hour = 0, minute = 0, second = 0\<rparr>\<rparr>,
         \<lparr>h_event = EVENT_DOWN, h_take0 = False, h_take1 = True, h_take2 = True,
          h_now = \<lparr>year = 2000, month = 1, day = 1, hour = 0, minute = 0, second = 0\<rparr>\<rparr>]
        (Model_ctor \<lparr>year = 2000, month = 1, day = 1, hour = 0, minute = 0, second = 0\<rparr>))
     = STATE_SETTINGS \<and>
   m_currentState
     (handleEvent False True True
        \<lparr>year = 2000, month = 1, day = 1, hour = 0, minute = 0, second = 0\<rparr> EVENT_SELECT1
        (handleEvents
           [\<lparr>h_event = EVENT_DOWN, h_take0 = True, h_take1 = True, h_take2 = True,
             h_now = \<lparr>year = 2000, month = 1, day = 1, hour = 0, minute = 0, second = 0\<rparr>\<rparr>,
            \<lparr>h_event = EVENT_SELECT1, h_take0 = True, h_take1 = True, h_take2 = True,
             h_now = \<lparr>year = 2000, month = 1, day = 1, hour = 0, minute = 0, second = 0\<rparr>\<rparr>,
            \<lparr>h_event = EVENT_DOWN, h_take0 = False, h_take1 = True, h_take2 = True,
             h_now = \<lparr>year = 2000, month = 1, day = 1, hour = 0, minute = 0, second = 0\<rparr>\<rparr>]
           (Model_ctor \<lparr>year = 2000, month = 1, day = 1, hour = 0, minute = 0, second = 0\<rparr>)))
     = STATE_ABOUT"
  by (simp add: table_entry_def transition_table_def Model_ctor_def handleEvent_def
      getCurrentState_def handleMenuState_def handleSettingsState_def
      incrementMenuIndex_def m_menuLength_eq c_rem_def getMenuIndex_def setState_def)

section \<open>Properties of the button polling\<close>

declare readButtons_from.simps [simp del]

lemma pollButton_fst:
  "fst (pollButton t c b) =
     (c = LOW \<and> lastState b = LOW \<and> \<not> pressed b \<and> t - lastDebounceTime b > DEBOUNCE_DELAY)"
  by (auto simp: pollButton_def Let_def DEBOUNCE_DELAY_def)

lemma pollButton_pin: "pin (snd (pollButton t c b)) = pin b"
  by (simp add: pollButton_def Let_def)

lemma less6: "i < 6 \<Longrightarrow> i = 0 \<or> i = 1 \<or> i = 2 \<or> i = 3 \<or> i = 4 \<or> i = (5::nat)"
  by arith

lemma switch_event_priority: "i < 6 \<Longrightarrow> switch_event i = Some (priority_order ! i)"
  by (drule less6) (auto simp: switch_event_def priority_order_def)

lemma readButtons_from_fst:
  "length bs = 6 \<Longrightarrow>
   fst (readButtons_from i t lv bs) =
     (case find (\<lambda>k. fst (pollButton t (lv (pin (bs ! k))) (bs ! k))) [i..<6] of
        None \<Rightarrow> EVENT_NONE | Some k \<Rightarrow> priority_order ! k)"
proof (induction i t lv bs rule: readButtons_from.induct)
  case (1 i t lv bs)
  show ?case
  proof (cases "i < 6")
    case False
    then show ?thesis by (subst readButtons_from.simps) simp
  next
    case True
    let ?r = "pollButton t (lv (pin (bs ! i))) (bs ! i)"
    let ?bs' = "bs[i := snd ?r]"
    have upt: "[i..<6] = i # [Suc i..<6]" using True by (simp add: upt_conv_Cons)
    have cong: "find (\<lambda>k. fst (pollButton t (lv (pin (?bs' ! k))) (?bs' ! k))) [Suc i..<6] =
                find (\<lambda>k. fst (pollButton t (lv (pin (bs ! k))) (bs ! k))) [Suc i..<6]"
      by (rule find_cong) auto
    show ?thesis
    proof (cases "fst ?r")
      case press: True
      then have "fst (pollButton t (lv (pin (bs ! i))) (bs ! i))" by simp
      with press True show ?thesis
        by (subst readButtons_from.simps) (simp add: Let_def upt switch_event_priority)
    next
      case nopress: False
      then have ne: "\<not> fst (pollButton t (lv (pin (bs ! i))) (bs ! i))" by simp
      have "fst (readButtons_from (Suc i) t lv ?bs') =
        (case find (\<lambda>k. fst (pollButton t (lv (pin (?bs' ! k))) (?bs' ! k))) [Suc i..<6] of
           None \<Rightarrow> EVENT_NONE | Some k \<Rightarrow> priority_order ! k)"
        using "1.IH"(2) [OF True refl refl nopress] "1.prems" by simp
      with nopress True ne show ?thesis
        by (subst readButtons_from.simps) (simp add: Let_def upt cong)
    qed
  qed
qed

lemma readButtons_from_nth:
  "length bs = 6 \<Longrightarrow> j < 6 \<Longrightarrow>
   snd (readButtons_from i t lv bs) ! j =
     (if i \<le> j \<and> find (\<lambda>k. fst (pollButton t (lv (pin (bs ! k))) (bs ! k))) [i..<j] = None
      then snd (pollButton t (lv (pin (bs ! j))) (bs ! j)) else bs ! j)"
proof (induction i t lv bs rule: readButtons_from.induct)
  case (1 i t lv bs)
  show ?case
  proof (cases "i < 6")
    case False
    with "1.prems" show ?thesis by (subst readButtons_from.simps) simp
  next
    case True
    let ?r = "pollButton t (lv (pin (bs ! i))) (bs ! i)"
    let ?bs' = "bs[i := snd ?r]"
    have upt: "i < j \<Longrightarrow> [i..<j] = i # [Suc i..<j]" by (simp add: upt_conv_Cons)
    have cong: "find (\<lambda>k. fst (pollButton t (lv (pin (?bs' ! k))) (?bs' ! k))) [Suc i..<j] =
                find (\<lambda>k. fst (pollButton t (lv (pin (bs ! k))) (bs ! k))) [Suc i..<j]"
      by (rule find_cong) auto
    show ?thesis
    proof (cases "fst ?r")
      case press: True
      then have pe: "fst (pollButton t (lv (pin (bs ! i))) (bs ! i))" by simp
      have res: "readButtons_from i t lv bs = (priority_order ! i, ?bs')"
        using press True by (subst readButtons_from.simps) (simp add: Let_def switch_event_priority)
      show ?thesis
      proof (cases "i < j")
        case True
        with pe res show ?thesis by (simp add: upt)
      next
        case False
        with res "1.prems" show ?thesis by (cases "i = j") simp_all
      qed
    next
      case nopress: False
      then have ne: "\<not> fst (pollButton t (lv (pin (bs ! i))) (bs ! i))" by simp
      have res: "readButtons_from i t lv bs = readButtons_from (Suc i) t lv ?bs'"
        using nopress True by (subst readButtons_from.simps) (simp add: Let_def)
      have ih: "snd (readButtons_from (Suc i) t lv ?bs') ! j =
        (if Suc i \<le> j \<and> find (\<lambda>k. fst (pollButton t (lv (pin (?bs' ! k))) (?bs' ! k))) [Suc i..<j] = None
         then snd (pollButton t (lv (pin (?bs' ! j))) (?bs' ! j)) else ?bs' ! j)"
        using "1.IH"(2) [OF True refl refl nopress] "1.prems" by simp
      show ?thesis
      proof (cases "i < j")
        case True
        with ne show ?thesis unfolding res ih cong by (simp add: upt)
      next
        case False
        with "1.prems" show ?thesis unfolding res ih by (cases "i = j") simp_all
      qed
    qed
  qed
qed

lemma find_upt_Some: "find P [0..<n] = Some j \<longleftrightarrow> j < n \<and> P j \<and> (\<forall>k<j. \<not> P k)"
  by (auto simp: find_Some_iff)

lemma find_upt_None: "find P [0..<n] = None \<longleftrightarrow> (\<forall>k<n. \<not> P k)"
  by (auto simp: find_None_iff)

lemma priority_order_inj:
  "k < 6 \<Longrightarrow> j < 6 \<Longrightarrow> priority_order ! k = priority_order ! j \<Longrightarrow> k = j"
proof -
  have "distinct priority_order" by (simp add: priority_order_def)
  moreover have "length priority_order = 6" by (simp add: priority_order_def)
  ultimately show "k < 6 \<Longrightarrow> j < 6 \<Longrightarrow> priority_order ! k = priority_order ! j \<Longrightarrow> k = j"
    by (simp add: nth_eq_iff_index_eq)
qed

lemma priority_order_not_none: "j < 6 \<Longrightarrow> priority_order ! j \<noteq> EVENT_NONE"
  by (drule less6) (auto simp: priority_order_def)

lemma readButtons_fst:
  "length bs = 6 \<Longrightarrow>
   fst (readButtons t lv bs) =
     (case find (\<lambda>k. fst (pollButton t (lv (pin (bs ! k))) (bs ! k))) [0..<6] of
        None \<Rightarrow> EVENT_NONE | Some k \<Rightarrow> priority_order ! k)"
  by (simp add: readButtons_def readButtons_from_fst)

lemma readButtons_nth:
  "length bs = 6 \<Longrightarrow> j < 6 \<Longrightarrow>
   snd (readButtons t lv bs) ! j =
     (if find (\<lambda>k. fst (pollButton t (lv (pin (bs ! k))) (bs ! k))) [0..<j] = None
      then snd (pollButton t (lv (pin (bs ! j))) (bs ! j)) else bs ! j)"
  by (simp add: readButtons_def readButtons_from_nth)

lemma readButtons_event_iff:
  assumes "length bs = 6" "j < 6"
  shows "fst (readButtons t lv bs) = priority_order ! j \<longleftrightarrow>
         fst (pollButton t (lv (pin (bs ! j))) (bs ! j)) \<and> (\<forall>k<j. \<not> fst (pollButton t (lv (pin (bs ! k))) (bs ! k)))"
proof (cases "find (\<lambda>k. fst (pollButton t (lv (pin (bs ! k))) (bs ! k))) [0..<6]")
  case None
  then have "fst (readButtons t lv bs) = EVENT_NONE" using assms by (simp add: readButtons_fst)
  moreover from None have "\<not> fst (pollButton t (lv (pin (bs ! j))) (bs ! j))" using assms(2) by (simp add: find_upt_None)
  ultimately show ?thesis using priority_order_not_none [OF assms(2)] by auto
next
  case (Some k)
  then have k: "k < 6" "fst (pollButton t (lv (pin (bs ! k))) (bs ! k))" "\<forall>i<k. \<not> fst (pollButton t (lv (pin (bs ! i))) (bs ! i))"
    by (simp_all add: find_upt_Some)
  from Some have e: "fst (readButtons t lv bs) = priority_order ! k"
    using assms by (simp add: readButtons_fst)
  show ?thesis
  proof
    assume "fst (readButtons t lv bs) = priority_order ! j"
    with e have "k = j" using k(1) assms(2) by (simp add: priority_order_inj)
    with k show "fst (pollButton t (lv (pin (bs ! j))) (bs ! j)) \<and> (\<forall>k<j. \<not> fst (pollButton t (lv (pin (bs ! k))) (bs ! k)))" by simp
  next
    assume a: "fst (pollButton t (lv (pin (bs ! j))) (bs ! j)) \<and> (\<forall>k<j. \<not> fst (pollButton t (lv (pin (bs ! k))) (bs ! k)))"
    have "k = j"
    proof (rule ccontr)
      assume "k \<noteq> j"
      then consider "k < j" | "j < k" by arith
      then show False using a k by cases auto
    qed
    with e show "fst (readButtons t lv bs) = priority_order ! j" by simp
  qed
qed

lemma length_readButtons_from: "length (snd (readButtons_from i t lv bs)) = length bs"
proof (induction i t lv bs rule: readButtons_from.induct)
  case (1 i t lv bs)
  show ?case
  proof (cases "i < 6")
    case False
    then show ?thesis by (subst readButtons_from.simps) simp
  next
    case True
    let ?r = "pollButton t (lv (pin (bs ! i))) (bs ! i)"
    show ?thesis
    proof (cases "fst ?r")
      case press: True
      with True show ?thesis
        by (subst readButtons_from.simps) (simp add: Let_def switch_event_priority)
    next
      case nopress: False
      with True "1.IH"(2) [OF True refl refl nopress] show ?thesis
        by (subst readButtons_from.simps) (simp add: Let_def)
    qed
  qed
qed

lemma length_readButtons: "length (snd (readButtons t lv bs)) = length bs"
  by (simp add: readButtons_def length_readButtons_from)

lemma pollButton_pressed_flip:
  "(\<not> pressed b \<and> pressed (snd (pollButton t c b))) = fst (pollButton t c b)"
  by (auto simp: pollButton_def Let_def)

lemma readButtons_press_registered:
  assumes "length bs = 6" "j < 6"
  shows "(\<not> pressed (bs ! j) \<and> pressed (snd (readButtons t lv bs) ! j)) \<longleftrightarrow>
         fst (readButtons t lv bs) = priority_order ! j"
proof (cases "find (\<lambda>k. fst (pollButton t (lv (pin (bs ! k))) (bs ! k))) [0..<j] = None")
  case True
  then have "\<forall>k<j. \<not> fst (pollButton t (lv (pin (bs ! k))) (bs ! k))" by (simp add: find_upt_None)
  moreover have "snd (readButtons t lv bs) ! j = snd (pollButton t (lv (pin (bs ! j))) (bs ! j))"
    using assms True by (simp add: readButtons_nth)
  ultimately show ?thesis
    using assms by (simp add: readButtons_event_iff pollButton_pressed_flip)
next
  case False
  then have "\<not> (\<forall>k<j. \<not> fst (pollButton t (lv (pin (bs ! k))) (bs ! k)))" by (simp add: find_upt_None)
  moreover have "snd (readButtons t lv bs) ! j = bs ! j"
    using assms False by (simp only: readButtons_nth if_False)
  ultimately show ?thesis
    using assms by (simp add: readButtons_event_iff)
qed

lemma readButtons_no_event_on_high:
  assumes "length bs = 6" "j < 6" "lv (pin (bs ! j)) = HIGH"
  shows "fst (readButtons t lv bs) \<noteq> priority_order ! j"
  using assms by (simp add: readButtons_event_iff pollButton_fst)

lemma settled_later: "settled t1 now b \<Longrightarrow> now \<le> t \<Longrightarrow> settled t1 t b"
  unfolding settled_def by (cases "pressed b") (fastforce intro: le_trans)+

lemma debounce_elapsed:
  assumes "d \<le> t" "millis t - millis d > DEBOUNCE_DELAY"
  shows "d + 50 < t"
proof -
  have "millis t - millis d = (of_nat (t - d) :: 32 word)"
    using assms(1) by (simp add: millis_def)
  then have "unat (millis t - millis d) = (t - d) mod 2 ^ 32" by (simp add: unat_of_nat)
  also have "\<dots> \<le> t - d" by (rule mod_less_eq_dividend)
  finally have "unat (millis t - millis d) \<le> t - d" .
  moreover from assms(2) have "unat (50::32 word) < unat (millis t - millis d)"
    by (simp only: DEBOUNCE_DELAY_def word_less_nat_alt)
  ultimately show ?thesis by simp
qed

lemma settled_pollButton:
  assumes "settled t1 now b" "now \<le> t"
  shows "settled t1 t (snd (pollButton (millis t) c b))"
proof -
  from assms have t1: "t1 \<le> t" by (simp add: settled_def)
  show ?thesis
  proof (cases "pressed b")
    case False
    with assms show ?thesis by (auto simp: settled_def pollButton_def Let_def)
  next
    case True
    show ?thesis
    proof (cases "c = lastState b")
      case False
      then have "snd (pollButton (millis t) c b) = b\<lparr>lastDebounceTime := millis t, lastState := c\<rparr>"
        by (simp add: pollButton_def Let_def DEBOUNCE_DELAY_def)
      moreover have "\<exists>d. t1 \<le> d \<and> d \<le> t \<and> millis t = millis d" using t1 by blast
      ultimately show ?thesis using True t1 by (simp add: settled_def)
    next
      case same: True
      show ?thesis
      proof (cases "c")
        case False
        with True same have "snd (pollButton (millis t) c b) = b"
          by (simp add: pollButton_def Let_def)
        with assms show ?thesis by (simp add: settled_later)
      next
        case high: True
        with same True assms obtain d where d: "t1 \<le> d" "d \<le> now" "lastDebounceTime b = millis d"
          by (auto simp: settled_def)
        show ?thesis
        proof (cases "millis t - lastDebounceTime b > DEBOUNCE_DELAY")
          case False
          with True same high have "snd (pollButton (millis t) c b) = b"
            by (simp add: pollButton_def Let_def)
          with assms show ?thesis by (simp add: settled_later)
        next
          case rel: True
          from d assms(2) have "d \<le> t" by simp
          from debounce_elapsed [OF this] rel d have "t1 + 50 < t" by simp
          with True same high rel t1 show ?thesis by (simp add: settled_def pollButton_def Let_def)
        qed
      qed
    qed
  qed
qed

lemma settled_after_press:
  "fst (pollButton (millis t) c b) \<Longrightarrow> settled t t (snd (pollButton (millis t) c b))"
  by (auto simp: settled_def pollButton_def Let_def split: if_splits)

lemma settled_readButtons:
  assumes "length bs = 6" "j < 6" "settled t1 now (bs ! j)" "now \<le> t"
  shows "settled t1 t (snd (readButtons (millis t) lv bs) ! j)"
proof (cases "find (\<lambda>k. fst (pollButton (millis t) (lv (pin (bs ! k))) (bs ! k))) [0..<j] = None")
  case True
  with assms show ?thesis by (simp add: readButtons_nth settled_pollButton)
next
  case False
  with assms(1,2) have "snd (readButtons (millis t) lv bs) ! j = bs ! j"
    by (simp only: readButtons_nth if_False)
  with assms show ?thesis by (simp add: settled_later)
qed

lemma settled_event:
  assumes "length bs = 6" "j < 6" "settled t1 now (bs ! j)" "now \<le> t"
    "fst (readButtons (millis t) lv bs) = priority_order ! j"
  shows "t1 + 50 < t"
proof -
  from assms(1,2,5) have "\<not> pressed (bs ! j)"
    by (simp add: readButtons_event_iff pollButton_fst)
  with assms(3,4) show ?thesis by (simp add: settled_def)
qed

lemma settled_after_event:
  assumes "length bs = 6" "j < 6" "fst (readButtons (millis t) lv bs) = priority_order ! j"
  shows "settled t t (snd (readButtons (millis t) lv bs) ! j)"
proof -
  from assms have e: "fst (pollButton (millis t) (lv (pin (bs ! j))) (bs ! j))" "\<forall>k<j. \<not> fst (pollButton (millis t) (lv (pin (bs ! k))) (bs ! k))"
    by (simp_all add: readButtons_event_iff)
  then have "find (\<lambda>k. fst (pollButton (millis t) (lv (pin (bs ! k))) (bs ! k))) [0..<j] = None" by (simp add: find_upt_None)
  then have "snd (readButtons (millis t) lv bs) ! j = snd (pollButton (millis t) (lv (pin (bs ! j))) (bs ! j))"
    using assms by (simp add: readButtons_nth)
  with e(1) show ?thesis by (simp add: settled_after_press)
qed

lemma events_after_settled:
  "length bs = 6 \<Longrightarrow> j < 6 \<Longrightarrow> settled t1 now (bs ! j) \<Longrightarrow>
   sorted (map fst ps) \<Longrightarrow> \<forall>p\<in>set ps. now \<le> fst p \<Longrightarrow>
   l < length ps \<Longrightarrow> poll_events bs ps ! l = priority_order ! j \<Longrightarrow>
   t1 + 50 < fst (ps ! l)"
proof (induction ps arbitrary: bs now l)
  case Nil
  then show ?case by simp
next
  case (Cons p ps)
  let ?bs' = "snd (readButtons (millis (fst p)) (snd p) bs)"
  from Cons.prems have now: "now \<le> fst p" by simp
  show ?case
  proof (cases l)
    case 0
    with Cons.prems have "fst (readButtons (millis (fst p)) (snd p) bs) = priority_order ! j" by simp
    from settled_event [OF Cons.prems(1,2,3) now this] 0 show ?thesis by simp
  next
    case (Suc l')
    have "t1 + 50 < fst (ps ! l')"
    proof (rule Cons.IH)
      show "length ?bs' = 6" using Cons.prems(1) by (simp add: length_readButtons)
      show "j < 6" by fact
      show "settled t1 (fst p) (?bs' ! j)" using Cons.prems(1,2,3) now by (rule settled_readButtons)
      show "sorted (map fst ps)" using Cons.prems(4) by simp
      show "\<forall>q\<in>set ps. fst p \<le> fst q" using Cons.prems(4) by simp
      show "l' < length ps" using Cons.prems(6) Suc by simp
      show "poll_events ?bs' ps ! l' = priority_order ! j" using Cons.prems(7) Suc by simp
    qed
    with Suc show ?thesis by simp
  qed
qed

lemma events_apart:
  "length bs = 6 \<Longrightarrow> j < 6 \<Longrightarrow> sorted (map fst ps) \<Longrightarrow>
   k < l \<Longrightarrow> l < length ps \<Longrightarrow>
   poll_events bs ps ! k = priority_order ! j \<Longrightarrow> poll_events bs ps ! l = priority_order ! j \<Longrightarrow>
   fst (ps ! k) + 50 < fst (ps ! l)"
proof (induction ps arbitrary: bs k l)
  case Nil
  then show ?case by simp
next
  case (Cons p ps)
  let ?bs' = "snd (readButtons (millis (fst p)) (snd p) bs)"
  have len: "length ?bs' = 6" using Cons.prems(1) by (simp add: length_readButtons)
  from Cons.prems(4) obtain l' where l: "l = Suc l'" by (cases l) simp_all
  show ?case
  proof (cases k)
    case 0
    with Cons.prems have ev: "fst (readButtons (millis (fst p)) (snd p) bs) = priority_order ! j" by simp
    have "fst p + 50 < fst (ps ! l')"
    proof (rule events_after_settled [OF len Cons.prems(2)])
      show "settled (fst p) (fst p) (?bs' ! j)" using Cons.prems(1,2) ev by (rule settled_after_event)
      show "sorted (map fst ps)" using Cons.prems(3) by simp
      show "\<forall>q\<in>set ps. fst p \<le> fst q" using Cons.prems(3) by simp
      show "l' < length ps" using Cons.prems(5) l by simp
      show "poll_events ?bs' ps ! l' = priority_order ! j" using Cons.prems(7) l by simp
    qed
    with 0 l show ?thesis by simp
  next
    case (Suc k')
    have "fst (ps ! k') + 50 < fst (ps ! l')"
    proof (rule Cons.IH [OF len Cons.prems(2)])
      show "sorted (map fst ps)" using Cons.prems(3) by simp
      show "k' < l'" using Cons.prems(4) Suc l by simp
      show "l' < length ps" using Cons.prems(5) l by simp
      show "poll_events ?bs' ps ! k' = priority_order ! j" using Cons.prems(6) Suc by simp
      show "poll_events ?bs' ps ! l' = priority_order ! j" using Cons.prems(7) l by simp
    qed
    with Suc l show ?thesis by simp
  qed
qed

lemma readButtons_pin:
  "length bs = 6 \<Longrightarrow> j < 6 \<Longrightarrow> pin (snd (readButtons t lv bs) ! j) = pin (bs ! j)"
  by (simp add: readButtons_nth pollButton_pin)

lemma readButtons_later_untouched:
  assumes "length bs = 6" "j < i" "i < 6" "fst (readButtons t lv bs) = priority_order ! j"
  shows "snd (readButtons t lv bs) ! i = bs ! i"
proof -
  from assms have j: "j < 6" by simp
  with assms have "fst (pollButton t (lv (pin (bs ! j))) (bs ! j))"
    by (simp add: readButtons_event_iff)
  with assms(2) have "find (\<lambda>k. fst (pollButton t (lv (pin (bs ! k))) (bs ! k))) [0..<i] \<noteq> None"
    by (auto simp: find_upt_None)
  with assms(1,3) show ?thesis by (simp only: readButtons_nth if_False)
qed

lemma pollButton_held:
  "pressed b \<Longrightarrow> pressed (snd (pollButton t LOW b))"
  by (simp add: pollButton_def Let_def)

lemma readButtons_held:
  assumes "length bs = 6" "j < 6" "pressed (bs ! j)" "lv (pin (bs ! j)) = LOW"
  shows "pressed (snd (readButtons t lv bs) ! j)"
  using assms by (simp add: readButtons_nth pollButton_held)

lemma event_after_pressed:
  "length bs = 6 \<Longrightarrow> j < 6 \<Longrightarrow> pressed (bs ! j) \<Longrightarrow> l < length ps \<Longrightarrow>
   poll_events bs ps ! l = priority_order ! j \<Longrightarrow>
   \<exists>m<l. snd (ps ! m) (pin (bs ! j)) = HIGH"
proof (induction ps arbitrary: bs l)
  case Nil
  then show ?case by simp
next
  case (Cons p ps)
  let ?bs' = "snd (readButtons (millis (fst p)) (snd p) bs)"
  show ?case
  proof (cases l)
    case 0
    with Cons.prems have "fst (readButtons (millis (fst p)) (snd p) bs) = priority_order ! j"
      by simp
    with Cons.prems(1,2) have "\<not> pressed (bs ! j)"
      by (simp add: readButtons_event_iff pollButton_fst)
    with Cons.prems(3) show ?thesis by simp
  next
    case (Suc l')
    show ?thesis
    proof (cases "snd p (pin (bs ! j))")
      case True
      with Suc show ?thesis by (intro exI [of _ 0]) simp
    next
      case False
      have "\<exists>m<l'. snd (ps ! m) (pin (?bs' ! j)) = HIGH"
      proof (rule Cons.IH)
        show "length ?bs' = 6" using Cons.prems(1) by (simp add: length_readButtons)
        show "j < 6" by fact
        show "pressed (?bs' ! j)" using Cons.prems(1,2,3) False by (simp add: readButtons_held)
        show "l' < length ps" using Cons.prems(4) Suc by simp
        show "poll_events ?bs' ps ! l' = priority_order ! j" using Cons.prems(5) Suc by simp
      qed
      then obtain m where "m < l'" "snd (ps ! m) (pin (bs ! j)) = HIGH"
        using Cons.prems(1,2) by (auto simp: readButtons_pin)
      with Suc show ?thesis by (intro exI [of _ "Suc m"]) simp
    qed
  qed
qed

lemma events_released_between:
  "length bs = 6 \<Longrightarrow> j < 6 \<Longrightarrow> k < l \<Longrightarrow> l < length ps \<Longrightarrow>
   poll_events bs ps ! k = priority_order ! j \<Longrightarrow> poll_events bs ps ! l = priority_order ! j \<Longrightarrow>
   \<exists>m. k < m \<and> m < l \<and> snd (ps ! m) (pin (bs ! j)) = HIGH"
proof (induction ps arbitrary: bs k l)
  case Nil
  then show ?case by simp
next
  case (Cons p ps)
  let ?bs' = "snd (readButtons (millis (fst p)) (snd p) bs)"
  have len: "length ?bs' = 6" using Cons.prems(1) by (simp add: length_readButtons)
  have pin: "pin (?bs' ! j) = pin (bs ! j)" using Cons.prems(1,2) by (simp add: readButtons_pin)
  from Cons.prems(3) obtain l' where l: "l = Suc l'" by (cases l) simp_all
  show ?case
  proof (cases k)
    case 0
    with Cons.prems have ev: "fst (readButtons (millis (fst p)) (snd p) bs) = priority_order ! j"
      by simp
    with Cons.prems(1,2) have "pressed (?bs' ! j)"
      using readButtons_press_registered [of bs j "millis (fst p)" "snd p"] by simp
    from event_after_pressed [OF len Cons.prems(2) this, of l' ps] Cons.prems(4,6) l
    obtain m where "m < l'" "snd (ps ! m) (pin (bs ! j)) = HIGH" by (auto simp: pin)
    with 0 l show ?thesis by (intro exI [of _ "Suc m"]) simp
  next
    case (Suc k')
    have "\<exists>m. k' < m \<and> m < l' \<and> snd (ps ! m) (pin (?bs' ! j)) = HIGH"
    proof (rule Cons.IH [OF len Cons.prems(2)])
      show "k' < l'" using Cons.prems(3) Suc l by simp
      show "l' < length ps" using Cons.prems(4) l by simp
      show "poll_events ?bs' ps ! k' = priority_order ! j" using Cons.prems(5) Suc by simp
      show "poll_events ?bs' ps ! l' = priority_order ! j" using Cons.prems(6) l by simp
    qed
    then obtain m where "k' < m" "m < l'" "snd (ps ! m) (pin (bs ! j)) = HIGH"
      by (auto simp: pin)
    with Suc l show ?thesis by (intro exI [of _ "Suc m"]) simp
  qed
qed

lemma held_no_event:
  "length bs = 6 \<Longrightarrow> j < 6 \<Longrightarrow> pressed (bs ! j) \<Longrightarrow>
   \<forall>p\<in>set ps. snd p (pin (bs ! j)) = LOW \<Longrightarrow> m < length ps \<Longrightarrow>
   poll_events bs ps ! m \<noteq> priority_order ! j"
proof
  assume a: "length bs = 6" "j < 6" "pressed (bs ! j)" "m < length ps"
    and low: "\<forall>p\<in>set ps. snd p (pin (bs ! j)) = LOW"
    and e: "poll_events bs ps ! m = priority_order ! j"
  from event_after_pressed [OF a(1,2,3,4) e] obtain m' where "m' < m" "snd (ps ! m') (pin (bs ! j))"
    by auto
  moreover from this a(4) have "ps ! m' \<in> set ps" by simp
  ultimately show False using low by blast
qed

lemma no_higher_detection:
  assumes "length bs = 6" "j < 6" "\<forall>i<j. fst (readButtons t lv bs) \<noteq> priority_order ! i"
  shows "i < j \<Longrightarrow> \<not> fst (pollButton t (lv (pin (bs ! i))) (bs ! i))"
proof (induction i rule: less_induct)
  case (less i)
  show ?case
  proof
    assume d: "fst (pollButton t (lv (pin (bs ! i))) (bs ! i))"
    from less.prems assms(2) have i: "i < 6" by simp
    have "\<forall>k<i. \<not> fst (pollButton t (lv (pin (bs ! k))) (bs ! k))"
      using less.IH less.prems by auto
    with d have "fst (readButtons t lv bs) = priority_order ! i"
      using assms(1) i by (simp add: readButtons_event_iff)
    with assms(3) less.prems show False by blast
  qed
qed

lemma examined:
  assumes "length bs = 6" "j < 6" "\<forall>i<j. fst (readButtons t lv bs) \<noteq> priority_order ! i"
  shows "snd (readButtons t lv bs) ! j = snd (pollButton t (lv (pin (bs ! j))) (bs ! j))"
    and "fst (readButtons t lv bs) = priority_order ! j \<longleftrightarrow>
         fst (pollButton t (lv (pin (bs ! j))) (bs ! j))"
proof -
  have n: "\<forall>i<j. \<not> fst (pollButton t (lv (pin (bs ! i))) (bs ! i))"
    using no_higher_detection [OF assms] by simp
  then have "find (\<lambda>k. fst (pollButton t (lv (pin (bs ! k))) (bs ! k))) [0..<j] = None"
    by (simp add: find_upt_None)
  then show "snd (readButtons t lv bs) ! j = snd (pollButton t (lv (pin (bs ! j))) (bs ! j))"
    using assms(1,2) by (simp add: readButtons_nth)
  show "fst (readButtons t lv bs) = priority_order ! j \<longleftrightarrow>
         fst (pollButton t (lv (pin (bs ! j))) (bs ! j))"
    using assms(1,2) n by (simp add: readButtons_event_iff)
qed

lemma millis_diff: "t0 \<le> t \<Longrightarrow> t < t0 + 2 ^ 32 \<Longrightarrow> unat (millis t - millis t0) = t - t0"
proof -
  assume a: "t0 \<le> t" "t < t0 + 2 ^ 32"
  then have "millis t - millis t0 = (of_nat (t - t0) :: 32 word)" by (simp add: millis_def)
  then have "unat (millis t - millis t0) = (t - t0) mod 2 ^ 32" by (simp add: unat_of_nat)
  also have "\<dots> = t - t0" using a by simp
  finally show ?thesis .
qed

lemma millis_window:
  "t0 \<le> t \<Longrightarrow> t < t0 + 2 ^ 32 \<Longrightarrow> (millis t - millis t0 > DEBOUNCE_DELAY) = (t0 + 50 < t)"
proof -
  assume a: "t0 \<le> t" "t < t0 + 2 ^ 32"
  have "(millis t - millis t0 > DEBOUNCE_DELAY) = (unat (50::32 word) < unat (millis t - millis t0))"
    by (simp only: DEBOUNCE_DELAY_def word_less_nat_alt)
  also have "\<dots> = (t0 + 50 < t)" using a by (auto simp: millis_diff)
  finally show ?thesis .
qed

lemma count_list_unique:
  "n < length xs \<Longrightarrow> \<forall>m<length xs. (xs ! m = x) = (m = n) \<Longrightarrow> count_list xs x = 1"
proof (induction xs arbitrary: n)
  case Nil
  then show ?case by simp
next
  case (Cons y ys)
  show ?case
  proof (cases n)
    case 0
    with Cons.prems have y: "y = x" by auto
    have "x \<notin> set ys"
    proof
      assume "x \<in> set ys"
      then obtain m where "m < length ys" "ys ! m = x" by (auto simp: in_set_conv_nth)
      with Cons.prems(2) 0 show False by (auto dest: spec [of _ "Suc m"])
    qed
    then have "count_list ys x = 0" by (simp add: count_list_0_iff)
    with y show ?thesis by simp
  next
    case (Suc n')
    with Cons.prems have y: "y \<noteq> x" by (auto dest: spec [of _ 0])
    have "count_list ys x = 1"
    proof (rule Cons.IH [of n'])
      show "n' < length ys" using Cons.prems(1) Suc by simp
      show "\<forall>m<length ys. (ys ! m = x) = (m = n')"
        using Cons.prems(2) Suc by (auto dest: spec [of _ "Suc m" for m])
    qed
    with y show ?thesis by simp
  qed
qed

lemma pollButton_unchanged:
  "c = lastState b \<Longrightarrow> \<not> fst (pollButton t c b) \<Longrightarrow> \<not> (pressed b \<and> c = HIGH) \<Longrightarrow>
   snd (pollButton t c b) = b"
  by (auto simp: pollButton_def Let_def split: if_splits)

lemma waiting_fires:
  "length bs = 6 \<Longrightarrow> j < 6 \<Longrightarrow>
   \<not> pressed (bs ! j) \<Longrightarrow> lastState (bs ! j) = LOW \<Longrightarrow> lastDebounceTime (bs ! j) = millis t0 \<Longrightarrow>
   \<forall>p\<in>set ps. t0 \<le> fst p \<Longrightarrow> \<forall>p\<in>set ps. snd p (pin (bs ! j)) = LOW \<Longrightarrow>
   n < length ps \<Longrightarrow> \<forall>m\<le>n. \<forall>i<j. poll_events bs ps ! m \<noteq> priority_order ! i \<Longrightarrow>
   t0 + 50 < fst (ps ! n) \<Longrightarrow> fst (ps ! n) < t0 + 2 ^ 32 \<Longrightarrow> \<forall>m<n. fst (ps ! m) \<le> t0 + 50 \<Longrightarrow>
   \<forall>m<length ps. (poll_events bs ps ! m = priority_order ! j) = (m = n)"
proof (induction ps arbitrary: bs n)
  case Nil
  then show ?case by simp
next
  case (Cons p ps)
  let ?t = "millis (fst p)"
  let ?r = "readButtons ?t (snd p) bs"
  let ?bs' = "snd ?r"
  let ?b = "bs ! j"
  have len: "length ?bs' = 6" using Cons.prems(1) by (simp add: length_readButtons)
  have pin: "pin (?bs' ! j) = pin ?b" using Cons.prems(1,2) by (simp add: readButtons_pin)
  have low: "snd p (pin ?b) = LOW" using Cons.prems(7) by simp
  have t0: "t0 \<le> fst p" using Cons.prems(6) by simp
  have hp0: "\<forall>i<j. fst ?r \<noteq> priority_order ! i"
  proof (intro allI impI)
    fix i assume "i < j"
    with Cons.prems(9) have "poll_events bs (p # ps) ! 0 \<noteq> priority_order ! i" by blast
    then show "fst ?r \<noteq> priority_order ! i" by simp
  qed
  note ex = examined [OF Cons.prems(1,2) hp0]
  show ?case
  proof (cases n)
    case 0
    with Cons.prems have w: "t0 + 50 < fst p" "fst p < t0 + 2 ^ 32" by simp_all
    have fire: "fst (pollButton ?t (snd p (pin ?b)) ?b)"
      using low Cons.prems(3,4,5) w t0 by (simp add: pollButton_fst millis_window)
    then have ev: "fst ?r = priority_order ! j" by (simp add: ex(2))
    then have pr: "pressed (?bs' ! j)"
      using readButtons_press_registered [OF Cons.prems(1,2), of ?t "snd p"] by simp
    have rest: "poll_events ?bs' ps ! m \<noteq> priority_order ! j" if "m < length ps" for m
      using len Cons.prems(2) pr _ that
    proof (rule held_no_event)
      show "\<forall>q\<in>set ps. snd q (pin (?bs' ! j)) = LOW" using Cons.prems(7) by (simp add: pin)
    qed
    show ?thesis
    proof (intro allI impI)
      fix m assume "m < length (p # ps)"
      then show "(poll_events bs (p # ps) ! m = priority_order ! j) = (m = n)"
        using 0 ev rest by (cases m) simp_all
    qed
  next
    case (Suc n')
    then have "0 < n" by simp
    with Cons.prems(12) have "fst ((p # ps) ! 0) \<le> t0 + 50" by blast
    then have early: "fst p \<le> t0 + 50" by simp
    then have "fst p < t0 + 2 ^ 32" by simp
    with early t0 have nofire: "\<not> fst (pollButton ?t (snd p (pin ?b)) ?b)"
      using Cons.prems(5) by (simp add: pollButton_fst millis_window)
    then have nev: "fst ?r \<noteq> priority_order ! j" by (simp add: ex(2))
    have same: "?bs' ! j = ?b"
      using ex(1) nofire low Cons.prems(3,4) by (simp add: pollButton_unchanged)
    have ih: "\<forall>m<length ps. (poll_events ?bs' ps ! m = priority_order ! j) = (m = n')"
    proof (rule Cons.IH [OF len Cons.prems(2)])
      show "\<not> pressed (?bs' ! j)" using Cons.prems(3) by (simp add: same)
      show "lastState (?bs' ! j) = LOW" using Cons.prems(4) by (simp add: same)
      show "lastDebounceTime (?bs' ! j) = millis t0" using Cons.prems(5) by (simp add: same)
      show "\<forall>q\<in>set ps. t0 \<le> fst q" using Cons.prems(6) by simp
      show "\<forall>q\<in>set ps. snd q (pin (?bs' ! j)) = LOW" using Cons.prems(7) by (simp add: same)
      show "n' < length ps" using Cons.prems(8) Suc by simp
      show "\<forall>m\<le>n'. \<forall>i<j. poll_events ?bs' ps ! m \<noteq> priority_order ! i"
      proof (intro allI impI)
        fix m i assume "m \<le> n'" and i: "i < j"
        with Suc have "Suc m \<le> n" by simp
        with Cons.prems(9) i have "poll_events bs (p # ps) ! Suc m \<noteq> priority_order ! i"
          by blast
        then show "poll_events ?bs' ps ! m \<noteq> priority_order ! i" by simp
      qed
      show "t0 + 50 < fst (ps ! n')" using Cons.prems(10) Suc by simp
      show "fst (ps ! n') < t0 + 2 ^ 32" using Cons.prems(11) Suc by simp
      show "\<forall>m<n'. fst (ps ! m) \<le> t0 + 50"
      proof (intro allI impI)
        fix m assume "m < n'"
        with Suc have "Suc m < n" by simp
        with Cons.prems(12) have "fst ((p # ps) ! Suc m) \<le> t0 + 50" by blast
        then show "fst (ps ! m) \<le> t0 + 50" by simp
      qed
    qed
    show ?thesis
    proof (intro allI impI)
      fix m assume "m < length (p # ps)"
      then show "(poll_events bs (p # ps) ! m = priority_order ! j) = (m = n)"
        using Suc nev ih by (cases m) simp_all
    qed
  qed
qed

lemma idle_press_fires:
  assumes "length bs = 6" "j < 6" "\<not> pressed (bs ! j)" "lastState (bs ! j) = HIGH"
    and "sorted (map fst ps)" "\<forall>p\<in>set ps. snd p (pin (bs ! j)) = LOW" "n < length ps"
    and "\<forall>m\<le>n. \<forall>i<j. poll_events bs ps ! m \<noteq> priority_order ! i"
    and "fst (ps ! 0) + 50 < fst (ps ! n)" "fst (ps ! n) < fst (ps ! 0) + 2 ^ 32"
    and "\<forall>m<n. fst (ps ! m) \<le> fst (ps ! 0) + 50"
  shows "\<forall>m<length ps. (poll_events bs ps ! m = priority_order ! j) = (m = n)"
proof (cases ps)
  case Nil
  with assms(7) show ?thesis by simp
next
  case (Cons p qs)
  let ?t = "millis (fst p)"
  let ?r = "readButtons ?t (snd p) bs"
  let ?bs' = "snd ?r"
  let ?b = "bs ! j"
  from assms(9) obtain n' where n: "n = Suc n'" by (cases n) simp_all
  have len: "length ?bs' = 6" using assms(1) by (simp add: length_readButtons)
  have low: "snd p (pin ?b) = LOW" using assms(6) Cons by simp
  have hp0: "\<forall>i<j. fst ?r \<noteq> priority_order ! i"
  proof (intro allI impI)
    fix i assume "i < j"
    with assms(8) have "poll_events bs ps ! 0 \<noteq> priority_order ! i" by blast
    then show "fst ?r \<noteq> priority_order ! i" using Cons by simp
  qed
  note ex = examined [OF assms(1,2) hp0]
  have step: "pollButton ?t LOW ?b = (False, ?b\<lparr>lastDebounceTime := ?t, lastState := LOW\<rparr>)"
    using assms(3,4) by (simp add: pollButton_def Let_def DEBOUNCE_DELAY_def)
  have nev: "fst ?r \<noteq> priority_order ! j" using ex(2) low step by simp
  have b': "?bs' ! j = ?b\<lparr>lastDebounceTime := ?t, lastState := LOW\<rparr>"
    using ex(1) low step by simp
  have rest: "\<forall>m<length qs. (poll_events ?bs' qs ! m = priority_order ! j) = (m = n')"
  proof (rule waiting_fires [OF len assms(2), where ?t0.0 = "fst p"])
    show "\<not> pressed (?bs' ! j)" using assms(3) by (simp add: b')
    show "lastState (?bs' ! j) = LOW" by (simp add: b')
    show "lastDebounceTime (?bs' ! j) = millis (fst p)" by (simp add: b')
    show "\<forall>q\<in>set qs. fst p \<le> fst q" using assms(5) Cons by simp
    show "\<forall>q\<in>set qs. snd q (pin (?bs' ! j)) = LOW" using assms(6) Cons by (simp add: b')
    show "n' < length qs" using assms(7) Cons n by simp
    show "\<forall>m\<le>n'. \<forall>i<j. poll_events ?bs' qs ! m \<noteq> priority_order ! i"
    proof (intro allI impI)
      fix m i assume "m \<le> n'" and i: "i < j"
      with n have "Suc m \<le> n" by simp
      with assms(8) i have "poll_events bs ps ! Suc m \<noteq> priority_order ! i" by blast
      then show "poll_events ?bs' qs ! m \<noteq> priority_order ! i" using Cons by simp
    qed
    show "fst p + 50 < fst (qs ! n')" using assms(9) Cons n by simp
    show "fst (qs ! n') < fst p + 2 ^ 32" using assms(10) Cons n by simp
    show "\<forall>m<n'. fst (qs ! m) \<le> fst p + 50"
    proof (intro allI impI)
      fix m assume "m < n'"
      with n have "Suc m < n" by simp
      with assms(11) have "fst (ps ! Suc m) \<le> fst (ps ! 0) + 50" by blast
      then show "fst (qs ! m) \<le> fst p + 50" using Cons by simp
    qed
  qed
  show ?thesis
  proof (intro allI impI)
    fix m assume "m < length ps"
    then show "(poll_events bs ps ! m = priority_order ! j) = (m = n)"
      using Cons n nev rest by (cases m) simp_all
  qed
qed

lemma poll_events_length: "length (poll_events bs ps) = length ps"
  by (induction ps arbitrary: bs) simp_all

lemma two_short_presses:
  "poll_events initializeButtons
     [(1000, up_down_lines LOW HIGH), (1010, up_down_lines HIGH HIGH),
      (1020, up_down_lines LOW HIGH), (1030, up_down_lines HIGH HIGH),
      (1040, up_down_lines HIGH HIGH), (1050, up_down_lines HIGH HIGH),
      (1060, up_down_lines HIGH HIGH), (1070, up_down_lines HIGH HIGH),
      (1080, up_down_lines HIGH HIGH), (1090, up_down_lines HIGH HIGH),
      (1100, up_down_lines HIGH HIGH)] =
   [EVENT_NONE, EVENT_NONE, EVENT_NONE, EVENT_NONE, EVENT_NONE, EVENT_NONE, EVENT_NONE,
    EVENT_NONE, EVENT_NONE, EVENT_NONE, EVENT_NONE]"
  by code_simp

lemma down_behind_up:
  "poll_events initializeButtons
     [(1000, up_down_lines LOW LOW), (1010, up_down_lines LOW LOW),
      (1020, up_down_lines LOW LOW), (1030, up_down_lines LOW LOW),
      (1040, up_down_lines LOW LOW), (1050, up_down_lines LOW LOW),
      (1060, up_down_lines LOW LOW), (1070, up_down_lines LOW HIGH),
      (1080, up_down_lines LOW HIGH), (1090, up_down_lines LOW HIGH),
      (1100, up_down_lines LOW HIGH), (1110, up_down_lines LOW HIGH),
      (1120, up_down_lines LOW HIGH), (1130, up_down_lines LOW HIGH),
      (1140, up_down_lines LOW HIGH)] =
   [EVENT_NONE, EVENT_NONE, EVENT_NONE, EVENT_NONE, EVENT_NONE, EVENT_NONE, EVENT_UP,
    EVENT_NONE, EVENT_NONE, EVENT_NONE, EVENT_NONE, EVENT_NONE, EVENT_NONE, EVENT_NONE,
    EVENT_NONE]"
  by code_simp

lemma down_alone:
  "poll_events initializeButtons
     [(1000, up_down_lines HIGH LOW), (1010, up_down_lines HIGH LOW),
      (1020, up_down_lines HIGH LOW), (1030, up_down_lines HIGH LOW),
      (1040, up_down_lines HIGH LOW), (1050, up_down_lines HIGH LOW),
      (1060, up_down_lines HIGH LOW), (1070, up_down_lines HIGH LOW),
      (1080, up_down_lines HIGH LOW)] =
   [EVENT_NONE, EVENT_NONE, EVENT_NONE, EVENT_NONE, EVENT_NONE, EVENT_NONE, EVENT_DOWN,
    EVENT_NONE, EVENT_NONE]"
  by code_simp

lemma press_release_press:
  "poll_events initializeButtons
     [(1000, up_down_lines LOW HIGH), (1100, up_down_lines LOW HIGH),
      (1200, up_down_lines HIGH HIGH), (1300, up_down_lines HIGH HIGH),
      (1400, up_down_lines LOW HIGH), (1500, up_down_lines LOW HIGH)] =
   [EVENT_NONE, EVENT_UP, EVENT_NONE, EVENT_NONE, EVENT_NONE, EVENT_UP]"
  by code_simp

lemma up_before_down:
  "readButtons (millis 1060) (up_down_lines LOW LOW)
     (initializeButtons
        [0 := \<lparr>pin = BTN_UP_PIN, lastState = LOW, lastDebounceTime = millis 1000,
               pressed = False\<rparr>]) =
   (EVENT_UP,
    initializeButtons
      [0 := \<lparr>pin = BTN_UP_PIN, lastState = LOW, lastDebounceTime = millis 1000,
             pressed = True\<rparr>])"
  by code_simp

lemma idle_press_once:
  assumes "length bs = 6" "j < 6" "sorted (map fst ps)"
    and "\<not> pressed (bs ! j)" "lastState (bs ! j) = HIGH"
    and low: "\<forall>p\<in>set ps. snd p (pin (bs ! j)) = LOW" and n: "n < length ps"
    and none: "set (take (Suc n) (poll_events bs ps)) \<inter> set (take j priority_order) = {}"
    and "fst (ps ! 0) + 50 < fst (ps ! n)" "fst (ps ! n) < fst (ps ! 0) + 2 ^ 32"
    and first: "\<forall>p\<in>set (take n ps). fst p \<le> fst (ps ! 0) + 50"
  shows "poll_events bs ps ! n = priority_order ! j \<and>
         count_list (poll_events bs ps) (priority_order ! j) = 1"
proof -
  have higher: "\<forall>m\<le>n. \<forall>i<j. poll_events bs ps ! m \<noteq> priority_order ! i"
  proof (intro allI impI)
    fix m i assume m: "m \<le> n" and i: "i < j"
    from m n have "take (Suc n) (poll_events bs ps) ! m \<in> set (take (Suc n) (poll_events bs ps))"
      by (intro nth_mem) (simp add: poll_events_length)
    with m have a: "poll_events bs ps ! m \<in> set (take (Suc n) (poll_events bs ps))" by simp
    from i assms(2) have "take j priority_order ! i \<in> set (take j priority_order)"
      by (intro nth_mem) (simp add: priority_order_def)
    with i have b: "priority_order ! i \<in> set (take j priority_order)" by simp
    show "poll_events bs ps ! m \<noteq> priority_order ! i"
    proof
      assume "poll_events bs ps ! m = priority_order ! i"
      with a b have "priority_order ! i \<in>
        set (take (Suc n) (poll_events bs ps)) \<inter> set (take j priority_order)" by simp
      with none show False by simp
    qed
  qed
  have early: "\<forall>m<n. fst (ps ! m) \<le> fst (ps ! 0) + 50"
  proof (intro allI impI)
    fix m assume m: "m < n"
    with n have "take n ps ! m \<in> set (take n ps)" by (intro nth_mem) simp
    with m have "ps ! m \<in> set (take n ps)" by simp
    with first show "fst (ps ! m) \<le> fst (ps ! 0) + 50" by (rule bspec)
  qed
  have only: "\<forall>m<length ps. (poll_events bs ps ! m = priority_order ! j) = (m = n)"
    using assms(1,2,4,5,3) low n higher assms(9,10) early by (rule idle_press_fires)
  from only n have "poll_events bs ps ! n = priority_order ! j" by simp
  moreover have "count_list (poll_events bs ps) (priority_order ! j) = 1"
  proof (rule count_list_unique [of n])
    show "n < length (poll_events bs ps)" using n by (simp add: poll_events_length)
    show "\<forall>m<length (poll_events bs ps). (poll_events bs ps ! m = priority_order ! j) = (m = n)"
      using only by (simp add: poll_events_length)
  qed
  ultimately show ?thesis by (rule conjI)
qed

text \<open>
  C3, as the code has it. For the array of six buttons in any state, any time and
  any pin levels, a call of \<open>readButtons\<close> returns one event: that of the first button,
  in the order Up, Down, Left, Right, Select1, Select2, for which the loop body detects
  a press, and \<open>EVENT_NONE\<close> when there is none; the buttons after that one are left as
  they were, not examined in this call. A button's press is registered (\<open>pressed\<close>
  goes from false to true) in a call exactly when that call returns the button's event.
  A call in which the button's line is high never returns the button's event. Over any
  sequence of polls at non-decreasing times, two polls that return the event of the same
  button are more than 50 ms apart, and some poll between them read the line high: a
  press yields at most one event. It yields exactly one in this case: the button is
  idle (no press registered, line high at the last look), every poll reads its line
  low, no poll up to poll \<open>n\<close> returns the event of a button earlier in the order, and
  poll \<open>n\<close> is the first that comes more than 50 ms (and less than \<open>2^32\<close> ms) after
  the first poll; then poll \<open>n\<close> returns the button's event and no other poll does.
\<close>

theorem readButtons_press_events:
  assumes "length bs = 6" and "j < 6" and "sorted (map fst ps)"
  shows
    "fst (readButtons t lv bs) =
       (case find (\<lambda>i. fst (pollButton t (lv (pin (bs ! i))) (bs ! i))) [0..<6] of
          None \<Rightarrow> EVENT_NONE | Some i \<Rightarrow> priority_order ! i) \<and>
     (fst (readButtons t lv bs) = priority_order ! j \<longrightarrow>
        (\<forall>i. j < i \<and> i < 6 \<longrightarrow> snd (readButtons t lv bs) ! i = bs ! i)) \<and>
     ((\<not> pressed (bs ! j) \<and> pressed (snd (readButtons t lv bs) ! j)) =
        (fst (readButtons t lv bs) = priority_order ! j)) \<and>
     (lv (pin (bs ! j)) = HIGH \<longrightarrow> fst (readButtons t lv bs) \<noteq> priority_order ! j) \<and>
     (k < l \<and> l < length ps \<and>
      poll_events bs ps ! k = priority_order ! j \<and> poll_events bs ps ! l = priority_order ! j
        \<longrightarrow> fst (ps ! k) + 50 < fst (ps ! l) \<and>
            (\<exists>m. k < m \<and> m < l \<and> snd (ps ! m) (pin (bs ! j)) = HIGH)) \<and>
     (\<not> pressed (bs ! j) \<and> lastState (bs ! j) = HIGH \<and>
      (\<forall>p\<in>set ps. snd p (pin (bs ! j)) = LOW) \<and> n < length ps \<and>
      set (take (Suc n) (poll_events bs ps)) \<inter> set (take j priority_order) = {} \<and>
      fst (ps ! 0) + 50 < fst (ps ! n) \<and> fst (ps ! n) < fst (ps ! 0) + 2 ^ 32 \<and>
      (\<forall>p\<in>set (take n ps). fst p \<le> fst (ps ! 0) + 50)
        \<longrightarrow> poll_events bs ps ! n = priority_order ! j \<and>
            count_list (poll_events bs ps) (priority_order ! j) = 1)"
proof -
  have c1: "fst (readButtons t lv bs) =
       (case find (\<lambda>i. fst (pollButton t (lv (pin (bs ! i))) (bs ! i))) [0..<6] of
          None \<Rightarrow> EVENT_NONE | Some i \<Rightarrow> priority_order ! i)"
    using assms(1) by (rule readButtons_fst)
  have c2: "fst (readButtons t lv bs) = priority_order ! j \<longrightarrow>
        (\<forall>i. j < i \<and> i < 6 \<longrightarrow> snd (readButtons t lv bs) ! i = bs ! i)"
  proof (intro impI allI, elim conjE)
    fix i
    assume "fst (readButtons t lv bs) = priority_order ! j" "j < i" "i < 6"
    with assms(1) show "snd (readButtons t lv bs) ! i = bs ! i"
      by (intro readButtons_later_untouched [of bs j i])
  qed
  have c3: "(\<not> pressed (bs ! j) \<and> pressed (snd (readButtons t lv bs) ! j)) =
        (fst (readButtons t lv bs) = priority_order ! j)"
    using assms(1,2) by (rule readButtons_press_registered)
  have c4: "lv (pin (bs ! j)) = HIGH \<longrightarrow> fst (readButtons t lv bs) \<noteq> priority_order ! j"
  proof
    assume "lv (pin (bs ! j)) = HIGH"
    with assms(1,2) show "fst (readButtons t lv bs) \<noteq> priority_order ! j"
      by (rule readButtons_no_event_on_high)
  qed
  have c5: "k < l \<and> l < length ps \<and>
      poll_events bs ps ! k = priority_order ! j \<and> poll_events bs ps ! l = priority_order ! j
        \<longrightarrow> fst (ps ! k) + 50 < fst (ps ! l) \<and>
            (\<exists>m. k < m \<and> m < l \<and> snd (ps ! m) (pin (bs ! j)) = HIGH)"
  proof (intro impI, elim conjE)
    assume kl: "k < l" "l < length ps"
      and ev: "poll_events bs ps ! k = priority_order ! j"
              "poll_events bs ps ! l = priority_order ! j"
    have "fst (ps ! k) + 50 < fst (ps ! l)"
      using assms kl ev by (rule events_apart)
    moreover have "\<exists>m. k < m \<and> m < l \<and> snd (ps ! m) (pin (bs ! j)) = HIGH"
      using assms(1,2) kl ev by (rule events_released_between)
    ultimately show "fst (ps ! k) + 50 < fst (ps ! l) \<and>
            (\<exists>m. k < m \<and> m < l \<and> snd (ps ! m) (pin (bs ! j)) = HIGH)"
      by (rule conjI)
  qed
  have c6: "\<not> pressed (bs ! j) \<and> lastState (bs ! j) = HIGH \<and>
      (\<forall>p\<in>set ps. snd p (pin (bs ! j)) = LOW) \<and> n < length ps \<and>
      set (take (Suc n) (poll_events bs ps)) \<inter> set (take j priority_order) = {} \<and>
      fst (ps ! 0) + 50 < fst (ps ! n) \<and> fst (ps ! n) < fst (ps ! 0) + 2 ^ 32 \<and>
      (\<forall>p\<in>set (take n ps). fst p \<le> fst (ps ! 0) + 50)
        \<longrightarrow> poll_events bs ps ! n = priority_order ! j \<and>
            count_list (poll_events bs ps) (priority_order ! j) = 1"
  proof (intro impI, elim conjE)
    assume "\<not> pressed (bs ! j)" "lastState (bs ! j) = HIGH"
      "\<forall>p\<in>set ps. snd p (pin (bs ! j)) = LOW" "n < length ps"
      "set (take (Suc n) (poll_events bs ps)) \<inter> set (take j priority_order) = {}"
      "fst (ps ! 0) + 50 < fst (ps ! n)" "fst (ps ! n) < fst (ps ! 0) + 2 ^ 32"
      "\<forall>p\<in>set (take n ps). fst p \<le> fst (ps ! 0) + 50"
    with assms show "poll_events bs ps ! n = priority_order ! j \<and>
            count_list (poll_events bs ps) (priority_order ! j) = 1"
      by (rule idle_press_once)
  qed
  from c1 c2 c3 c4 c5 c6 show ?thesis by (intro conjI)
qed

theorem readButtons_press_events_witness:
  "fst (readButtons (millis 1060) (up_down_lines LOW LOW)
          (initializeButtons
             [0 := \<lparr>pin = BTN_UP_PIN, lastState = LOW, lastDebounceTime = millis 1000,
                    pressed = False\<rparr>])) = EVENT_UP \<and>
   snd (readButtons (millis 1060) (up_down_lines LOW LOW)
          (initializeButtons
             [0 := \<lparr>pin = BTN_UP_PIN, lastState = LOW, lastDebounceTime = millis 1000,
                    pressed = False\<rparr>])) ! 1 = initializeButtons ! 1 \<and>
   up_down_lines HIGH HIGH (pin (initializeButtons ! 0)) = HIGH \<and>
   fst (readButtons (millis 1000) (up_down_lines HIGH HIGH) initializeButtons) \<noteq> EVENT_UP \<and>
   poll_events initializeButtons
     [(1000, up_down_lines LOW HIGH), (1100, up_down_lines LOW HIGH),
      (1200, up_down_lines HIGH HIGH), (1300, up_down_lines HIGH HIGH),
      (1400, up_down_lines LOW HIGH), (1500, up_down_lines LOW HIGH)] ! 1 = EVENT_UP \<and>
   poll_events initializeButtons
     [(1000, up_down_lines LOW HIGH), (1100, up_down_lines LOW HIGH),
      (1200, up_down_lines HIGH HIGH), (1300, up_down_lines HIGH HIGH),
      (1400, up_down_lines LOW HIGH), (1500, up_down_lines LOW HIGH)] ! 5 = EVENT_UP \<and>
   (1100::nat) + 50 < 1500 \<and>
   (\<exists>m. 1 < m \<and> m < 5 \<and>
      snd ([(1000::nat, up_down_lines LOW HIGH), (1100, up_down_lines LOW HIGH),
            (1200, up_down_lines HIGH HIGH), (1300, up_down_lines HIGH HIGH),
            (1400, up_down_lines LOW HIGH), (1500, up_down_lines LOW HIGH)] ! m)
        (pin (initializeButtons ! 0)) = HIGH) \<and>
   poll_events initializeButtons
     [(1000, up_down_lines HIGH LOW), (1010, up_down_lines HIGH LOW),
      (1020, up_down_lines HIGH LOW), (1030, up_down_lines HIGH LOW),
      (1040, up_down_lines HIGH LOW), (1050, up_down_lines HIGH LOW),
      (1060, up_down_lines HIGH LOW), (1070, up_down_lines HIGH LOW),
      (1080, up_down_lines HIGH LOW)] ! 6 = EVENT_DOWN \<and>
   count_list
     (poll_events initializeButtons
        [(1000, up_down_lines HIGH LOW), (1010, up_down_lines HIGH LOW),
         (1020, up_down_lines HIGH LOW), (1030, up_down_lines HIGH LOW),
         (1040, up_down_lines HIGH LOW), (1050, up_down_lines HIGH LOW),
         (1060, up_down_lines HIGH LOW), (1070, up_down_lines HIGH LOW),
         (1080, up_down_lines HIGH LOW)]) EVENT_DOWN = 1"
proof -
  let ?bs1 = "initializeButtons
     [0 := \<lparr>pin = BTN_UP_PIN, lastState = LOW, lastDebounceTime = millis 1000,
            pressed = False\<rparr>]"
  let ?ps2 = "[(1000::nat, up_down_lines LOW HIGH), (1100, up_down_lines LOW HIGH),
      (1200, up_down_lines HIGH HIGH), (1300, up_down_lines HIGH HIGH),
      (1400, up_down_lines LOW HIGH), (1500, up_down_lines LOW HIGH)]"
  let ?ps3 = "[(1000::nat, up_down_lines HIGH LOW), (1010, up_down_lines HIGH LOW),
      (1020, up_down_lines HIGH LOW), (1030, up_down_lines HIGH LOW),
      (1040, up_down_lines HIGH LOW), (1050, up_down_lines HIGH LOW),
      (1060, up_down_lines HIGH LOW), (1070, up_down_lines HIGH LOW),
      (1080, up_down_lines HIGH LOW)]"
  have len: "length initializeButtons = 6" by (simp add: initializeButtons_def)
  have len1: "length ?bs1 = 6" by (simp add: initializeButtons_def)
  have po0: "priority_order ! 0 = EVENT_UP" by (simp add: priority_order_def)
  have po1: "priority_order ! 1 = EVENT_DOWN" by (simp add: priority_order_def)
  have j0: "(0::nat) < 6" and j1: "(1::nat) < 6" by simp_all
  have s2: "sorted (map fst ?ps2)" and s3: "sorted (map fst ?ps3)" by simp_all

  \<comment> \<open>the call that returns Up leaves Down as it was\<close>
  have e1: "fst (readButtons (millis 1060) (up_down_lines LOW LOW) ?bs1) = EVENT_UP"
    by (simp add: up_before_down)
  note a = readButtons_press_events [OF len1 j0 s2, of "millis 1060" "up_down_lines LOW LOW",
      THEN conjunct2, THEN conjunct1, rule_format, of 1]
  have u1: "snd (readButtons (millis 1060) (up_down_lines LOW LOW) ?bs1) ! 1 = ?bs1 ! 1"
    using a e1 po0 by simp
  then have u1': "snd (readButtons (millis 1060) (up_down_lines LOW LOW) ?bs1) ! 1
      = initializeButtons ! 1"
    by simp

  \<comment> \<open>no event on a high line\<close>
  have h: "up_down_lines HIGH HIGH (pin (initializeButtons ! 0)) = HIGH"
    by (simp add: up_down_lines_def)
  note b = readButtons_press_events [OF len j0 s2, of "millis 1000" "up_down_lines HIGH HIGH",
      THEN conjunct2, THEN conjunct2, THEN conjunct2, THEN conjunct1, rule_format, OF h]
  from b po0
  have nh: "fst (readButtons (millis 1000) (up_down_lines HIGH HIGH) initializeButtons) \<noteq> EVENT_UP"
    by simp

  \<comment> \<open>two events of Up\<close>
  have ev1: "poll_events initializeButtons ?ps2 ! 1 = EVENT_UP"
    by (subst press_release_press) simp
  have ev5: "poll_events initializeButtons ?ps2 ! 5 = EVENT_UP"
    by (subst press_release_press) simp
  have pre2: "(1::nat) < 5 \<and> 5 < length ?ps2 \<and>
      poll_events initializeButtons ?ps2 ! 1 = priority_order ! 0 \<and>
      poll_events initializeButtons ?ps2 ! 5 = priority_order ! 0"
    using ev1 ev5 po0 by simp
  note c = readButtons_press_events [OF len j0 s2, of _ _ 1 5,
      THEN conjunct2, THEN conjunct2, THEN conjunct2, THEN conjunct2, THEN conjunct1,
      rule_format, OF pre2]
  from c have apart: "(1100::nat) + 50 < 1500" by simp
  from c have between: "\<exists>m. 1 < m \<and> m < 5 \<and> snd (?ps2 ! m) (pin (initializeButtons ! 0)) = HIGH"
    by (rule conjunct2)

  \<comment> \<open>one held press of Down, alone\<close>
  have evs3: "poll_events initializeButtons ?ps3 =
      [EVENT_NONE, EVENT_NONE, EVENT_NONE, EVENT_NONE, EVENT_NONE, EVENT_NONE, EVENT_DOWN,
       EVENT_NONE, EVENT_NONE]"
    by (rule down_alone)
  have pre3: "\<not> pressed (initializeButtons ! 1) \<and> lastState (initializeButtons ! 1) = HIGH \<and>
      (\<forall>p\<in>set ?ps3. snd p (pin (initializeButtons ! 1)) = LOW) \<and> 6 < length ?ps3 \<and>
      set (take (Suc 6) (poll_events initializeButtons ?ps3)) \<inter> set (take 1 priority_order) = {} \<and>
      fst (?ps3 ! 0) + 50 < fst (?ps3 ! 6) \<and> fst (?ps3 ! 6) < fst (?ps3 ! 0) + 2 ^ 32 \<and>
      (\<forall>p\<in>set (take 6 ?ps3). fst p \<le> fst (?ps3 ! 0) + 50)"
    unfolding evs3
    by (simp add: initializeButtons_def up_down_lines_def priority_order_def BTN_UP_PIN_def
        BTN_DOWN_PIN_def)
  note d = readButtons_press_events [OF len j1 s3, of _ _ _ _ 6,
      THEN conjunct2, THEN conjunct2, THEN conjunct2, THEN conjunct2, THEN conjunct2,
      rule_format, OF pre3]
  note d' = d [unfolded po1]
  have f6: "poll_events initializeButtons ?ps3 ! 6 = EVENT_DOWN" by (rule d' [THEN conjunct1])
  have cnt: "count_list (poll_events initializeButtons ?ps3) EVENT_DOWN = 1"
    by (rule d' [THEN conjunct2])
  from e1 u1' h nh ev1 ev5 apart between f6 cnt show ?thesis by (intro conjI)
qed

text \<open>
  C3, as the claim states it, fails. Two presses of Up within the window, at 1000 ms
  and at 1020 ms, each released after 10 ms, give no event at all. And a press of Down
  held from 1000 ms to 1069 ms, longer than the window, gives no event of Down when Up
  is pressed at the same time: the call at 1060 ms returns Up before it examines Down,
  and at 1070 ms Down is released. The same press of Down alone gives its event at
  1060 ms.
\<close>

theorem press_without_event:
  "poll_events initializeButtons
     [(1000, up_down_lines LOW HIGH), (1010, up_down_lines HIGH HIGH),
      (1020, up_down_lines LOW HIGH), (1030, up_down_lines HIGH HIGH),
      (1040, up_down_lines HIGH HIGH), (1050, up_down_lines HIGH HIGH),
      (1060, up_down_lines HIGH HIGH), (1070, up_down_lines HIGH HIGH),
      (1080, up_down_lines HIGH HIGH), (1090, up_down_lines HIGH HIGH),
      (1100, up_down_lines HIGH HIGH)] =
   [EVENT_NONE, EVENT_NONE, EVENT_NONE, EVENT_NONE, EVENT_NONE, EVENT_NONE, EVENT_NONE,
    EVENT_NONE, EVENT_NONE, EVENT_NONE, EVENT_NONE] \<and>
   poll_events initializeButtons
     [(1000, up_down_lines LOW LOW), (1010, up_down_lines LOW LOW),
      (1020, up_down_lines LOW LOW), (1030, up_down_lines LOW LOW),
      (1040, up_down_lines LOW LOW), (1050, up_down_lines LOW LOW),
      (1060, up_down_lines LOW LOW), (1070, up_down_lines LOW HIGH),
      (1080, up_down_lines LOW HIGH), (1090, up_down_lines LOW HIGH),
      (1100, up_down_lines LOW HIGH), (1110, up_down_lines LOW HIGH),
      (1120, up_down_lines LOW HIGH), (1130, up_down_lines LOW HIGH),
      (1140, up_down_lines LOW HIGH)] =
   [EVENT_NONE, EVENT_NONE, EVENT_NONE, EVENT_NONE, EVENT_NONE, EVENT_NONE, EVENT_UP,
    EVENT_NONE, EVENT_NONE, EVENT_NONE, EVENT_NONE, EVENT_NONE, EVENT_NONE, EVENT_NONE,
    EVENT_NONE] \<and>
   poll_events initializeButtons
     [(1000, up_down_lines HIGH LOW), (1010, up_down_lines HIGH LOW),
      (1020, up_down_lines HIGH LOW), (1030, up_down_lines HIGH LOW),
      (1040, up_down_lines HIGH LOW), (1050, up_down_lines HIGH LOW),
      (1060, up_down_lines HIGH LOW), (1070, up_down_lines HIGH LOW),
      (1080, up_down_lines HIGH LOW)] =
   [EVENT_NONE, EVENT_NONE, EVENT_NONE, EVENT_NONE, EVENT_NONE, EVENT_NONE, EVENT_DOWN,
    EVENT_NONE, EVENT_NONE]"
  using two_short_presses down_behind_up down_alone by (intro conjI)

section \<open>Properties of the startup\<close>

lemma mask_both:
  "((w::32 word) AND (a OR b)) = (a OR b) \<longleftrightarrow> w AND a = a \<and> w AND b = b"
  by (auto simp: bit_eq_iff bit_and_iff bit_or_iff)

lemma mask_bit: "n < 32 \<Longrightarrow> ((w::32 word) AND BIT n = BIT n) \<longleftrightarrow> bit w n"
proof
  assume n: "n < 32" and e: "w AND BIT n = BIT n"
  have "bit (BIT n) n" using n by (simp add: BIT_def bit_push_bit_iff del: push_bit_of_1)
  with e have "bit (w AND BIT n) n" by simp
  then show "bit w n" by (simp only: bit_and_iff)
next
  assume n: "n < 32" and b: "bit w n"
  show "w AND BIT n = BIT n"
  proof (rule bit_eqI)
    fix k
    show "bit (w AND BIT n) k = bit (BIT n) k"
      using b by (auto simp: BIT_def bit_and_iff bit_push_bit_iff bit_1_iff simp del: push_bit_of_1)
  qed
qed

lemma waitForSystemReady_bits:
  "waitForSystemReady eg w \<longleftrightarrow> eg \<noteq> None \<and> bit w 1 \<and> bit w 2"
proof (cases eg)
  case None
  have "BIT 1 OR BIT 2 = (6::32 word)" by (simp add: BIT_def)
  with None show ?thesis
    by (simp add: waitForSystemReady_def waitForAllBits_def Let_def
        DISPLAY_READY_BIT_def CONTROLLER_READY_BIT_def)
next
  case (Some h)
  then show ?thesis
    by (simp add: waitForSystemReady_def waitForAllBits_def Let_def mask_both mask_bit
        DISPLAY_READY_BIT_def CONTROLLER_READY_BIT_def)
qed

lemma activity_stays_off: "\<not> g_systemInitialized s \<Longrightarrow> \<not> g_systemInitialized (activity a s)"
  by (cases a) (simp_all add: loop_def systemStatusTask_def)

lemma activities_stay_off:
  "\<not> g_systemInitialized s \<Longrightarrow> \<not> g_systemInitialized (activities as s)"
  by (induction as arbitrary: s) (simp_all add: activity_stays_off)

lemma setup_flag:
  "g_systemInitialized (setup_main env System_init) =
     (components_ok env \<and> tasks_ok env \<and>
      waitForSystemReady (sync_eventGroup env) (sync_waited env))"
  by (simp add: setup_main_def initializeHardware_def System_init_def println_def cleanup_def
      Let_def)

lemma setup_timeout:
  "components_ok env \<Longrightarrow> tasks_ok env \<Longrightarrow>
   \<not> waitForSystemReady (sync_eventGroup env) (sync_waited env) \<Longrightarrow>
   \<not> g_systemInitialized (setup_main env System_init) \<and>
   ''System startup timeout!'' \<in> set (console (setup_main env System_init))"
  by (simp add: setup_main_def initializeHardware_def System_init_def println_def cleanup_def
      Let_def)

text \<open>
  C9. \<open>waitForSystemReady\<close> returns true exactly when the event group exists and the
  value that the wait returns (the bits of the group when the wait ended, at the
  latest at the timeout) has both bit 1, the display-ready bit, and bit 2, the
  controller-ready bit. \<open>setup()\<close> sets \<open>g_systemInitialized\<close> exactly when the
  components and the tasks came up and \<open>waitForSystemReady\<close> returned true. When it
  returns false there, \<open>setup()\<close> leaves \<open>g_systemInitialized\<close> false and prints
  "System startup timeout!", and nothing that runs afterwards (passes of \<open>loop\<close>,
  iterations of \<open>systemStatusTask\<close>) sets the flag.
\<close>

theorem waitForSystemReady_startup:
  "DISPLAY_READY_BIT = BIT 1 \<and> CONTROLLER_READY_BIT = BIT 2 \<and>
   (waitForSystemReady eg w \<longleftrightarrow> eg \<noteq> None \<and> bit w 1 \<and> bit w 2) \<and>
   g_systemInitialized (setup_main env System_init) =
     (components_ok env \<and> tasks_ok env \<and>
      waitForSystemReady (sync_eventGroup env) (sync_waited env)) \<and>
   (components_ok env \<and> tasks_ok env \<and>
    \<not> waitForSystemReady (sync_eventGroup env) (sync_waited env) \<longrightarrow>
      \<not> g_systemInitialized (setup_main env System_init) \<and>
      ''System startup timeout!'' \<in> set (console (setup_main env System_init)) \<and>
      \<not> g_systemInitialized (activities acts (setup_main env System_init)))"
proof -
  have a: "DISPLAY_READY_BIT = BIT 1 \<and> CONTROLLER_READY_BIT = BIT 2"
    by (simp add: DISPLAY_READY_BIT_def CONTROLLER_READY_BIT_def)
  have b: "waitForSystemReady eg w \<longleftrightarrow> eg \<noteq> None \<and> bit w 1 \<and> bit w 2"
    by (rule waitForSystemReady_bits)
  have c: "\<not> g_systemInitialized (setup_main env System_init) \<and>
      ''System startup timeout!'' \<in> set (console (setup_main env System_init)) \<and>
      \<not> g_systemInitialized (activities acts (setup_main env System_init))"
    if "components_ok env \<and> tasks_ok env \<and>
        \<not> waitForSystemReady (sync_eventGroup env) (sync_waited env)"
  proof -
    from that have s: "\<not> g_systemInitialized (setup_main env System_init) \<and>
      ''System startup timeout!'' \<in> set (console (setup_main env System_init))"
      by (simp add: setup_timeout)
    then have "\<not> g_systemInitialized (activities acts (setup_main env System_init))"
      by (simp add: activities_stay_off)
    with s show ?thesis by simp
  qed
  from a b c setup_flag [of env] show ?thesis by blast
qed

theorem waitForSystemReady_startup_witness:
  "\<not> waitForSystemReady (Some ()) (4::32 word) \<and>
   waitForSystemReady (Some ()) (6::32 word) \<and>
   \<not> g_systemInitialized
       (setup_main \<lparr>components_ok = True, tasks_ok = True, sync_eventGroup = Some (),
                    sync_waited = 4, rtc_found = True\<rparr> System_init) \<and>
   console
       (setup_main \<lparr>components_ok = True, tasks_ok = True, sync_eventGroup = Some (),
                    sync_waited = 4, rtc_found = True\<rparr> System_init) =
     [''=== ESP32 Menu System Starting ==='', ''Initializing hardware...'', ''I2C initialized'',
      ''Hardware initialization complete'', ''System startup timeout!'',
      ''Cleaning up system...'', ''Cleanup complete''] \<and>
   \<not> g_systemInitialized
       (activities [Loop, StatusCheck 8, Loop]
          (setup_main \<lparr>components_ok = True, tasks_ok = True, sync_eventGroup = Some (),
                       sync_waited = 4, rtc_found = True\<rparr> System_init))"
proof -
  let ?env = "\<lparr>components_ok = True, tasks_ok = True, sync_eventGroup = Some (),
               sync_waited = 4, rtc_found = True\<rparr>"
  note th = waitForSystemReady_startup [of "Some ()" _ ?env "[Loop, StatusCheck 8, Loop]"]
  have b4: "\<not> bit (4::32 word) 1" by simp
  have n4: "\<not> waitForSystemReady (Some ()) (4::32 word)"
    using th [of 4, THEN conjunct2, THEN conjunct2, THEN conjunct1] b4 by simp
  have b6: "bit (6::32 word) 1 \<and> bit (6::32 word) 2" by simp
  have y6: "waitForSystemReady (Some ()) (6::32 word)"
    using th [of 6, THEN conjunct2, THEN conjunct2, THEN conjunct1] b6 by simp
  have pre: "components_ok ?env \<and> tasks_ok ?env \<and>
    \<not> waitForSystemReady (sync_eventGroup ?env) (sync_waited ?env)"
    using n4 by simp
  note c = th [of 4, THEN conjunct2, THEN conjunct2, THEN conjunct2, THEN conjunct2,
      rule_format, OF pre]
  have log: "console (setup_main ?env System_init) =
     [''=== ESP32 Menu System Starting ==='', ''Initializing hardware...'', ''I2C initialized'',
      ''Hardware initialization complete'', ''System startup timeout!'',
      ''Cleaning up system...'', ''Cleanup complete'']"
    using n4
    by (simp add: setup_main_def initializeHardware_def System_init_def println_def cleanup_def
        Let_def)
  from n4 y6 c log show ?thesis by (intro conjI) simp_all
qed

end
